theory Spec2Isabelle
  imports Main
begin

section \<open>Numbers\<close>

text \<open>
  The spreadsheet component \<^verbatim>\<open>src/Spreadsheet.tsx\<close> (in the source tree it follows the
  share dialog inside \<^verbatim>\<open>ShareModal.tsx\<close>, from line 129 on) evaluates formulas, recomputes
  the sheet after an edit and keeps an undo history. It computes with JavaScript
  numbers: IEEE-754 doubles. A finite double is a dyadic rational; \<open>Fin m j\<close> stands for
  \<open>m / 2 ^ j\<close>, kept in lowest terms (\<open>j = 0\<close> or \<open>m\<close> odd), so an integer \<open>n\<close> is
  \<open>Fin n 0\<close>. \<open>NaN\<close> and the two infinities are values of their own. The sign of zero
  is not kept: every place of the program that could see \<open>-0\<close> either coerces it with
  \<^verbatim>\<open>|| 0\<close> or subtracts 1 from it.
\<close>

datatype jsnum = NaN | PInf | NInf | Fin int nat

function bitlen :: "int \<Rightarrow> nat" where
  "bitlen n = (if n \<le> 0 then 0 else Suc (bitlen (n div 2)))"
  by pat_completeness auto
termination
  by (relation "measure nat") auto

function numdigits :: "int \<Rightarrow> nat" where
  "numdigits n = (if n \<le> 0 then 0 else Suc (numdigits (n div 10)))"
  by pat_completeness auto
termination
  by (relation "measure nat") auto

fun norm_dyadic :: "int \<Rightarrow> nat \<Rightarrow> jsnum" where
  "norm_dyadic m 0 = Fin m 0"
| "norm_dyadic m (Suc j) = (if even m then norm_dyadic (m div 2) j else Fin m (Suc j))"

text \<open>\<open>rhe_shift a sh\<close> is \<open>a / 2 ^ sh\<close> rounded to an integer, ties to even.\<close>

definition rhe_shift :: "int \<Rightarrow> nat \<Rightarrow> int" where
  "rhe_shift a sh =
     (let q = a div 2 ^ sh; r = a mod 2 ^ sh; half = 2 ^ (sh - 1)
      in if r < half then q else if half < r then q + 1
         else if even q then q else q + 1)"

text \<open>
  \<open>round_dyadic m j\<close> is the double nearest to \<open>m / 2 ^ j\<close>: 53 significant bits, no bit
  below \<open>2 ^ -1074\<close>, ties to even, and an infinity from \<open>2 ^ 1024\<close> on. A value that
  already fits (\<open>sh \<le> 0\<close>) is returned as it is, so every integer of magnitude below
  \<open>2 ^ 53\<close> is exact.
\<close>

definition round_dyadic :: "int \<Rightarrow> nat \<Rightarrow> jsnum" where
  "round_dyadic m j =
     (let a = \<bar>m\<bar>; sh = max (int (bitlen a) - 53) (int j - 1074)
      in if sh \<le> 0 then norm_dyadic m j
         else let q = rhe_shift a (nat sh)
              in if 1024 < int (bitlen q) + sh - int j then (if 0 < m then PInf else NInf)
                 else if int j \<le> sh then Fin (sgn m * q * 2 ^ (nat sh - j)) 0
                 else norm_dyadic (sgn m * q) (j - nat sh))"

text \<open>
  \<open>round_ratio p q\<close> is the double nearest to \<open>p / q\<close> (\<open>q > 0\<close>): the quotient is taken
  to at least 55 bits and one more bit records whether anything was cut off.
\<close>

definition round_ratio :: "int \<Rightarrow> int \<Rightarrow> jsnum" where
  "round_ratio p q =
     (let a = \<bar>p\<bar>; k = nat (55 + int (bitlen q) - int (bitlen a));
          n = a * 2 ^ k
      in round_dyadic (sgn p * (2 * (n div q) + (if n mod q = 0 then 0 else 1))) (k + 1))"

text \<open>\<open>round_decimal n e\<close> is the double nearest to \<open>n * 10 ^ e\<close>.\<close>

definition round_decimal :: "int \<Rightarrow> int \<Rightarrow> jsnum" where
  "round_decimal n e =
     (if 0 \<le> e then round_dyadic (n * 10 ^ nat e) 0 else round_ratio n (10 ^ nat (- e)))"

text \<open>The operators \<^verbatim>\<open>+\<close>, \<^verbatim>\<open>/\<close>, \<^verbatim>\<open><\<close>, \<^verbatim>\<open><=\<close>, \<^verbatim>\<open>===\<close> on numbers.\<close>

fun num_add :: "jsnum \<Rightarrow> jsnum \<Rightarrow> jsnum" where
  "num_add (Fin m1 j1) (Fin m2 j2) =
     round_dyadic (m1 * 2 ^ (max j1 j2 - j1) + m2 * 2 ^ (max j1 j2 - j2)) (max j1 j2)"
| "num_add NaN _ = NaN"
| "num_add _ NaN = NaN"
| "num_add PInf NInf = NaN"
| "num_add NInf PInf = NaN"
| "num_add PInf _ = PInf"
| "num_add _ PInf = PInf"
| "num_add NInf _ = NInf"
| "num_add _ NInf = NInf"

fun num_lt :: "jsnum \<Rightarrow> jsnum \<Rightarrow> bool" where
  "num_lt (Fin m1 j1) (Fin m2 j2) = (m1 * 2 ^ j2 < m2 * 2 ^ j1)"
| "num_lt NaN _ = False"
| "num_lt _ NaN = False"
| "num_lt _ NInf = False"
| "num_lt PInf _ = False"
| "num_lt NInf _ = True"
| "num_lt _ PInf = True"

definition num_le :: "jsnum \<Rightarrow> jsnum \<Rightarrow> bool" where
  "num_le a b = (a \<noteq> NaN \<and> b \<noteq> NaN \<and> \<not> num_lt b a)"

fun num_eq :: "jsnum \<Rightarrow> jsnum \<Rightarrow> bool" where
  "num_eq (Fin m1 j1) (Fin m2 j2) = (m1 * 2 ^ j2 = m2 * 2 ^ j1)"
| "num_eq PInf PInf = True"
| "num_eq NInf NInf = True"
| "num_eq _ _ = False"

fun num_div :: "jsnum \<Rightarrow> jsnum \<Rightarrow> jsnum" where
  "num_div (Fin m1 j1) (Fin m2 j2) =
     (if m2 = 0 then (if m1 = 0 then NaN else if 0 < m1 then PInf else NInf)
      else round_ratio (sgn m2 * m1 * 2 ^ j2) (\<bar>m2\<bar> * 2 ^ j1))"
| "num_div NaN _ = NaN"
| "num_div _ NaN = NaN"
| "num_div (Fin _ _) _ = Fin 0 0"
| "num_div PInf (Fin m _) = (if 0 \<le> m then PInf else NInf)"
| "num_div NInf (Fin m _) = (if 0 \<le> m then NInf else PInf)"
| "num_div _ _ = NaN"

text \<open>\<^verbatim>\<open>x || 0\<close> on a number: \<open>NaN\<close> and zero are falsy.\<close>

definition or_zero :: "jsnum \<Rightarrow> jsnum" where
  "or_zero x = (case x of NaN \<Rightarrow> Fin 0 0 | Fin m j \<Rightarrow> (if m = 0 then Fin 0 0 else Fin m j) | _ \<Rightarrow> x)"

text \<open>
  A call either returns, or throws, or runs forever. \<open>Returns\<close> and \<open>Throws\<close> are the
  two ways to come back; not coming back is \<open>None\<close>.
\<close>

datatype error = RangeError | TypeError

datatype 'a outcome = Returns 'a | Throws error

text \<open>
  \<^verbatim>\<open>Math.min(...xs)\<close> and \<^verbatim>\<open>Math.max(...xs)\<close>. The spread passes every element of the array
  as an argument of one call. The language puts no bound on the number of arguments of a
  call, but every engine does, and a call with more throws a \<^verbatim>\<open>RangeError\<close>. The bound is
  the engine's and not the program's: JavaScriptCore has a fixed one of 65536, V8 takes
  as many as its stack holds, somewhat over 100000 with the default stack.
  \<open>argumentLimit\<close> is the bound taken here, one that these engines all accept, so that a
  call that returns here returns on each of them.
\<close>

definition argumentLimit :: int where
  "argumentLimit = 65535"

definition num_min :: "jsnum \<Rightarrow> jsnum \<Rightarrow> jsnum" where
  "num_min a b = (if a = NaN \<or> b = NaN then NaN else if num_lt b a then b else a)"

definition num_max :: "jsnum \<Rightarrow> jsnum \<Rightarrow> jsnum" where
  "num_max a b = (if a = NaN \<or> b = NaN then NaN else if num_lt a b then b else a)"

definition math_min :: "jsnum list \<Rightarrow> jsnum outcome" where
  "math_min xs = (if int (length xs) \<le> argumentLimit then Returns (foldl num_min PInf xs)
                  else Throws RangeError)"

definition math_max :: "jsnum list \<Rightarrow> jsnum outcome" where
  "math_max xs = (if int (length xs) \<le> argumentLimit then Returns (foldl num_max NInf xs)
                  else Throws RangeError)"

declare bitlen.simps [simp del] numdigits.simps [simp del]

subsection \<open>Number to string\<close>

function digits10 :: "int \<Rightarrow> string" where
  "digits10 n = (if n < 10 then [char_of (48 + n)]
                 else digits10 (n div 10) @ [char_of (48 + n mod 10)])"
  by pat_completeness auto
termination
  by (relation "measure nat") auto

declare digits10.simps [simp del]

text \<open>
  \<^verbatim>\<open>Number.prototype.toString\<close>: the fewest decimal digits \<open>s\<close> (\<open>k\<close> of them) and the
  exponent \<open>n\<close> such that \<open>s * 10 ^ (n - k)\<close> rounds back to the number; of two such
  \<open>s\<close> the nearer. \<open>M\<close> holds all \<open>nd\<close> decimal digits of the exact value
  \<open>M / 10 ^ j\<close>; 17 digits always suffice.
\<close>

fun shortest :: "jsnum \<Rightarrow> int \<Rightarrow> nat \<Rightarrow> nat \<Rightarrow> nat \<Rightarrow> int \<times> int" where
  "shortest x M nd j 0 = (M, int nd - int j)"
| "shortest x M nd j (Suc fuel) =
     (let k = 17 - fuel
      in if nd \<le> k then (M, int nd - int j)
         else let p = 10 ^ (nd - k); lo = M div p; hi = lo + 1;
                  e = int nd - int j - int k;
                  oklo = (round_decimal lo e = x); okhi = (round_decimal hi e = x);
                  dlo = M - lo * p; dhi = hi * p - M;
                  uselo = (oklo \<and> (if okhi then dlo < dhi \<or> (dlo = dhi \<and> even lo) else True))
              in if uselo then (lo, int nd - int j)
                 else if okhi
                   then (if hi = 10 ^ k then (1, int nd - int j + 1) else (hi, int nd - int j))
                 else shortest x M nd j fuel)"

definition format_digits :: "int \<Rightarrow> int \<Rightarrow> string" where
  "format_digits s n =
     (let ds = digits10 s; k = int (length ds)
      in if k \<le> n \<and> n \<le> 21 then ds @ replicate (nat (n - k)) CHR ''0''
         else if 0 < n \<and> n \<le> 21 then take (nat n) ds @ ''.'' @ drop (nat n) ds
         else if - 6 < n \<and> n \<le> 0 then ''0.'' @ replicate (nat (- n)) CHR ''0'' @ ds
         else (if k = 1 then ds else take 1 ds @ ''.'' @ drop 1 ds)
              @ ''e'' @ (if 0 \<le> n - 1 then ''+'' else ''-'') @ digits10 \<bar>n - 1\<bar>)"

fun numToString :: "jsnum \<Rightarrow> string" where
  "numToString NaN = ''NaN''"
| "numToString PInf = ''Infinity''"
| "numToString NInf = ''-Infinity''"
| "numToString (Fin m j) =
     (if m = 0 then ''0''
      else let M = \<bar>m\<bar> * 5 ^ j; (s, n) = shortest (Fin \<bar>m\<bar> j) M (numdigits M) j 17
           in (if m < 0 then ''-'' else '''') @ format_digits s n)"

section \<open>Strings\<close>

text \<open>
  Texts are strings of the characters with codes 0 to 255 (Latin-1). \<open>isSpace\<close> is the
  regular expression class \<^verbatim>\<open>\s\<close>, which is also what \<^verbatim>\<open>trim\<close> strips and what \<^verbatim>\<open>parseFloat\<close>
  and \<^verbatim>\<open>parseInt\<close> skip: tab, line feed, vertical tab, form feed, carriage return, space
  and the no-break space (code 160). \<open>isDigit\<close> is \<^verbatim>\<open>\d\<close>, \<open>isUpper\<close> is \<^verbatim>\<open>[A-Z]\<close>,
  \<open>isLineEnd\<close> is what \<^verbatim>\<open>.\<close> refuses, \<open>isOp\<close> is \<^verbatim>\<open>[<>=!]\<close>.
\<close>

definition code :: "char \<Rightarrow> nat" where
  "code c = of_char c"

definition isSpace :: "char \<Rightarrow> bool" where
  "isSpace c = (code c = 32 \<or> (9 \<le> code c \<and> code c \<le> 13) \<or> code c = 160)"

definition isDigit :: "char \<Rightarrow> bool" where
  "isDigit c = (48 \<le> code c \<and> code c \<le> 57)"

definition isUpper :: "char \<Rightarrow> bool" where
  "isUpper c = (65 \<le> code c \<and> code c \<le> 90)"

definition isLineEnd :: "char \<Rightarrow> bool" where
  "isLineEnd c = (code c = 10 \<or> code c = 13)"

definition isOp :: "char \<Rightarrow> bool" where
  "isOp c = (c = CHR ''<'' \<or> c = CHR ''>'' \<or> c = CHR ''='' \<or> c = CHR ''!'')"

text \<open>
  \<^verbatim>\<open>toUpperCase\<close>: the letters a to z and the accented small letters (codes 224 to 254,
  the division sign 247 apart) go to the character 32 below, the sharp s (223) goes to
  "SS", every other character stays. Two small letters have their capital outside these
  characters: the micro sign (181, capital U+039C) and the y with diaeresis (255, capital
  U+0178). They are left as they are here, and a text is \<open>upperIsLatin1\<close> when it has
  neither; what is proved of formula texts is proved of those.
\<close>

definition upperChar :: "char \<Rightarrow> string" where
  "upperChar c =
     (if (97 \<le> code c \<and> code c \<le> 122) \<or> (224 \<le> code c \<and> code c \<le> 254 \<and> code c \<noteq> 247)
      then [char_of (code c - 32)]
      else if code c = 223 then ''SS'' else [c])"

definition toUpperCase :: "string \<Rightarrow> string" where
  "toUpperCase s = concat (map upperChar s)"

definition upperIsLatin1 :: "string \<Rightarrow> bool" where
  "upperIsLatin1 s = (filter (\<lambda>c. code c = 181 \<or> code c = 255) s = [])"

definition trim :: "string \<Rightarrow> string" where
  "trim s = rev (dropWhile isSpace (rev (dropWhile isSpace s)))"

definition digits_val :: "string \<Rightarrow> int" where
  "digits_val ds = foldl (\<lambda>n c. 10 * n + (int (code c) - 48)) 0 ds"

text \<open>
  \<^verbatim>\<open>parseFloat\<close>: leading white space is skipped, then the longest prefix that is a decimal
  literal is read (sign, digits, fraction, exponent, or \<^verbatim>\<open>Infinity\<close>); \<open>NaN\<close> when there
  is none.
\<close>

definition parseExponent :: "string \<Rightarrow> int" where
  "parseExponent r =
     (case r of
        c # r1 \<Rightarrow>
          if c = CHR ''e'' \<or> c = CHR ''E'' then
            (case r1 of
               d # r2 \<Rightarrow>
                 if d = CHR ''-'' then (if takeWhile isDigit r2 = [] then 0 else - digits_val (takeWhile isDigit r2))
                 else if d = CHR ''+'' then digits_val (takeWhile isDigit r2)
                 else digits_val (takeWhile isDigit r1)
             | [] \<Rightarrow> 0)
          else 0
      | [] \<Rightarrow> 0)"

definition parseUnsigned :: "int \<Rightarrow> string \<Rightarrow> jsnum" where
  "parseUnsigned sg s =
     (if take 8 s = ''Infinity'' then (if 0 < sg then PInf else NInf)
      else let ip = takeWhile isDigit s; r1 = dropWhile isDigit s;
               dot = (r1 \<noteq> [] \<and> hd r1 = CHR ''.'');
               fp = (if dot then takeWhile isDigit (tl r1) else []);
               r2 = (if dot then dropWhile isDigit (tl r1) else r1)
           in if ip = [] \<and> fp = [] then NaN
              else round_decimal (sg * digits_val (ip @ fp)) (parseExponent r2 - int (length fp)))"

definition parseFloat :: "string \<Rightarrow> jsnum" where
  "parseFloat s =
     (case dropWhile isSpace s of
        [] \<Rightarrow> NaN
      | c # r \<Rightarrow> if c = CHR ''-'' then parseUnsigned (- 1) r
                 else if c = CHR ''+'' then parseUnsigned 1 r
                 else parseUnsigned 1 (c # r))"

text \<open>
  \<^verbatim>\<open>parseInt\<close> with no radix: white space, a sign, \<^verbatim>\<open>0x\<close> or \<^verbatim>\<open>0X\<close> for radix 16, then
  the longest run of digits; \<open>NaN\<close> when that run is empty.
\<close>

definition isHexDigit :: "char \<Rightarrow> bool" where
  "isHexDigit c = (isDigit c \<or> (65 \<le> code c \<and> code c \<le> 70) \<or> (97 \<le> code c \<and> code c \<le> 102))"

definition hex_val :: "string \<Rightarrow> int" where
  "hex_val ds = foldl (\<lambda>n c. 16 * n + (if isDigit c then int (code c) - 48
                                        else if code c \<le> 70 then int (code c) - 55
                                        else int (code c) - 87)) 0 ds"

definition parseIntUnsigned :: "int \<Rightarrow> string \<Rightarrow> jsnum" where
  "parseIntUnsigned sg s =
     (if take 2 s = ''0x'' \<or> take 2 s = ''0X''
      then (if takeWhile isHexDigit (drop 2 s) = [] then NaN
            else round_dyadic (sg * hex_val (takeWhile isHexDigit (drop 2 s))) 0)
      else (if takeWhile isDigit s = [] then NaN
            else round_dyadic (sg * digits_val (takeWhile isDigit s)) 0))"

definition parseInt :: "string \<Rightarrow> jsnum" where
  "parseInt s =
     (case dropWhile isSpace s of
        [] \<Rightarrow> NaN
      | c # r \<Rightarrow> if c = CHR ''-'' then parseIntUnsigned (- 1) r
                 else if c = CHR ''+'' then parseIntUnsigned 1 r
                 else parseIntUnsigned 1 (c # r))"

text \<open>\<^verbatim>\<open>s.charCodeAt(0)\<close> is \<open>NaN\<close> on the empty string; \<^verbatim>\<open>String.fromCharCode\<close>
  takes the integer part of its argument.\<close>

definition charCodeAt0 :: "string \<Rightarrow> jsnum" where
  "charCodeAt0 s = (case s of [] \<Rightarrow> NaN | c # _ \<Rightarrow> Fin (int (code c)) 0)"

definition fromCharCode :: "jsnum \<Rightarrow> char" where
  "fromCharCode x = (case x of Fin m j \<Rightarrow> char_of (sgn m * (\<bar>m\<bar> div 2 ^ j)) | _ \<Rightarrow> char_of (0::int))"

text \<open>\<^verbatim>\<open>s.split(':')\<close>.\<close>

fun split_on :: "char \<Rightarrow> string \<Rightarrow> string list" where
  "split_on sep [] = [[]]"
| "split_on sep (c # cs) =
     (if c = sep then [] # split_on sep cs
      else (case split_on sep cs of p # ps \<Rightarrow> (c # p) # ps | [] \<Rightarrow> [[c]]))"

section \<open>Formula evaluation\<close>

text \<open>
  \<^verbatim>\<open>interface CellData { value: string; formula?: string }\<close>. The field \<^verbatim>\<open>value\<close> is
  \<open>val\<close> here. The evaluator reads the sheet \<^verbatim>\<open>data: Record<string, CellData>\<close> only
  through \<^verbatim>\<open>data[key]\<close>, so it takes the sheet as a map from keys to cells.
\<close>

record CellData =
  val :: string
  formula :: "string option"

type_synonym sheet = "string \<rightharpoonup> CellData"

text \<open>The regular expression \<^verbatim>\<open>/^NAME\((.+)\)$/\<close>, giving its group.\<close>

definition match_call :: "string \<Rightarrow> string \<Rightarrow> string option" where
  "match_call name s =
     (let p = name @ ''(''; mid = butlast (drop (length p) s)
      in if take (length p) s = p \<and> length p + 2 \<le> length s \<and> last s = CHR '')''
            \<and> filter isLineEnd mid = []
         then Some mid else None)"

text \<open>The regular expression \<^verbatim>\<open>/^IF\(([^,]+),([^,]+),([^)]+)\)$/\<close>, giving its three groups.\<close>

definition match_if :: "string \<Rightarrow> (string \<times> string \<times> string) option" where
  "match_if s =
     (if take 3 s = ''IF('' then
        (let r = drop 3 s;
             a = takeWhile (\<lambda>c. c \<noteq> CHR '','') r; r1 = dropWhile (\<lambda>c. c \<noteq> CHR '','') r;
             b = takeWhile (\<lambda>c. c \<noteq> CHR '','') (tl r1); r2 = dropWhile (\<lambda>c. c \<noteq> CHR '','') (tl r1);
             c = butlast (tl r2)
         in if a \<noteq> [] \<and> r1 \<noteq> [] \<and> b \<noteq> [] \<and> r2 \<noteq> [] \<and> tl r2 \<noteq> []
               \<and> last (tl r2) = CHR '')'' \<and> c \<noteq> [] \<and> CHR '')'' \<notin> set c
            then Some (a, b, c) else None)
      else None)"

text \<open>
  \<^verbatim>\<open>
  const evaluateValue = (val: string, data: Record<string, CellData>): string => {
    const cellMatch = val.match(/^([A-Z]+)(\d+)$/);
    if (cellMatch) {
      const cellKey = cellMatch[0].toUpperCase();
      return data[cellKey]?.value || '0';
    }
    return val.replace(/['"]/g, ''); // Remove quotes
  };
  \<close>
\<close>

definition isCellRef :: "string \<Rightarrow> bool" where
  "isCellRef v = (takeWhile isUpper v \<noteq> [] \<and> dropWhile isUpper v \<noteq> []
                  \<and> list_all isDigit (dropWhile isUpper v))"

definition cellText :: "sheet \<Rightarrow> string \<Rightarrow> string" where
  "cellText data key = (case data key of None \<Rightarrow> ''0'' | Some cell \<Rightarrow> (if val cell = [] then ''0'' else val cell))"

definition evaluateValue :: "string \<Rightarrow> sheet \<Rightarrow> string" where
  "evaluateValue v data =
     (if isCellRef v then cellText data (toUpperCase v)
      else filter (\<lambda>c. c \<noteq> CHR 0x27 \<and> c \<noteq> CHR 0x22) v)"

text \<open>
  \<^verbatim>\<open>condition.split(/\s*([<>=!]+)\s*/)\<close>: the string is cut at every run of operator
  characters with the white space around it, and the run itself is kept as a part.
  \<open>match_op s\<close> matches the expression at the head of \<open>s\<close>.
\<close>

definition match_op :: "string \<Rightarrow> (string \<times> string) option" where
  "match_op s =
     (let r = dropWhile isSpace s
      in if takeWhile isOp r = [] then None
         else Some (takeWhile isOp r, dropWhile isSpace (dropWhile isOp r)))"

function split_ops :: "string \<Rightarrow> string \<Rightarrow> string list" where
  "split_ops cur [] = [cur]"
| "split_ops cur (c # cs) =
     (case match_op (c # cs) of
        Some (ops, rest) \<Rightarrow> cur # ops # split_ops [] rest
      | None \<Rightarrow> split_ops (cur @ [c]) cs)"
  by pat_completeness auto
termination
proof (relation "measure (\<lambda>(cur, s). length s)")
  fix cur :: string and c cs x2 ops rest
  assume a: "match_op (c # cs) = Some x2" and b: "(ops, rest) = x2"
  define r where "r = dropWhile isSpace (c # cs)"
  from a b have ne: "takeWhile isOp r \<noteq> []"
    and rest: "rest = dropWhile isSpace (dropWhile isOp r)"
    by (auto simp: match_op_def Let_def r_def split: if_splits)
  have "length (takeWhile isOp r) + length (dropWhile isOp r) = length r"
    by (metis length_append takeWhile_dropWhile_id)
  with ne have "length (dropWhile isOp r) < length r"
    by (cases "takeWhile isOp r") auto
  moreover have "length rest \<le> length (dropWhile isOp r)"
    unfolding rest by (rule length_dropWhile_le)
  moreover have "length r \<le> length (c # cs)"
    unfolding r_def by (rule length_dropWhile_le)
  ultimately show "(([], rest), (cur, c # cs)) \<in> measure (\<lambda>(cur, s). length s)"
    by simp
qed auto

text \<open>
  \<^verbatim>\<open>
  const evaluateCondition = (condition: string, data: Record<string, CellData>): boolean => {
    const parts = condition.split(/\s*([<>=!]+)\s*/);
    if (parts.length === 3) {
      const left = parseFloat(evaluateValue(parts[0], data)) || 0;
      const op = parts[1];
      const right = parseFloat(evaluateValue(parts[2], data)) || 0;
      switch (op) {
        case '>': return left > right;
        case '<': return left < right;
        case '>=': return left >= right;
        case '<=': return left <= right;
        case '==': case '=': return left === right;
        case '!=': case '<>': return left !== right;
        default: return false;
      }
    }
    return false;
  };
  \<close>
\<close>

text \<open>The coercion \<^verbatim>\<open>parseFloat(val) || 0\<close>.\<close>

definition coerce :: "string \<Rightarrow> jsnum" where
  "coerce v = or_zero (parseFloat v)"

definition evaluateCondition :: "string \<Rightarrow> sheet \<Rightarrow> bool" where
  "evaluateCondition condition data =
     (case split_ops [] condition of
        [p0, op, p2] \<Rightarrow>
          (let left = coerce (evaluateValue p0 data);
               right = coerce (evaluateValue p2 data)
           in if op = ''>'' then num_lt right left
              else if op = ''<'' then num_lt left right
              else if op = ''>='' then num_le right left
              else if op = ''<='' then num_le left right
              else if op = ''=='' \<or> op = ''='' then num_eq left right
              else if op = ''!='' \<or> op = ''<>'' then \<not> num_eq left right
              else False)
      | _ \<Rightarrow> False)"

text \<open>
  \<^verbatim>\<open>
  const parseRange = (range: string, data: Record<string, CellData>): string[] => {
    // Simple: A1:A5
    const [start, end] = range.split(':');
    const startCol = start.charCodeAt(0) - 65;
    const startRow = parseInt(start.slice(1)) - 1;
    const endCol = end.charCodeAt(0) - 65;
    const endRow = parseInt(end.slice(1)) - 1;

    const cells = [];
    for (let r = startRow; r <= endRow; r++) {
      for (let c = startCol; c <= endCol; c++) {
        const key = `${String.fromCharCode(65 + c)}${r + 1}`;
        cells.push(data[key]?.value.toString() || '0');
      }
    }
    return cells;
  };
  \<close>
  The counters \<^verbatim>\<open>r\<close> and \<^verbatim>\<open>c\<close> are doubles and \<^verbatim>\<open>r++\<close> rounds, so the loops are
  partial functions: a loop that never leaves has the value \<open>None\<close>. An array holds at
  most \<open>2 ^ 32 - 1\<close> elements; \<^verbatim>\<open>push\<close> on a full one throws a \<^verbatim>\<open>RangeError\<close>. When the
  text has no colon, \<^verbatim>\<open>end\<close> is \<^verbatim>\<open>undefined\<close> and \<^verbatim>\<open>end.charCodeAt\<close> throws a
  \<^verbatim>\<open>TypeError\<close>.
\<close>

definition cellKey :: "jsnum \<Rightarrow> jsnum \<Rightarrow> string" where
  "cellKey c r = fromCharCode (num_add (Fin 65 0) c) # numToString (num_add r (Fin 1 0))"

partial_function (option) colLoop ::
  "sheet \<Rightarrow> jsnum \<Rightarrow> jsnum \<Rightarrow> jsnum \<Rightarrow> string list \<Rightarrow> string list outcome option" where
  "colLoop data r c endCol cells =
     (if num_le c endCol then
        (if int (length cells) < 4294967295
         then colLoop data r (num_add c (Fin 1 0)) endCol (cells @ [cellText data (cellKey c r)])
         else Some (Throws RangeError))
      else Some (Returns cells))"

partial_function (option) rowLoop ::
  "sheet \<Rightarrow> jsnum \<Rightarrow> jsnum \<Rightarrow> jsnum \<Rightarrow> jsnum \<Rightarrow> string list \<Rightarrow> string list outcome option" where
  "rowLoop data r endRow startCol endCol cells =
     (if num_le r endRow then
        (case colLoop data r startCol endCol cells of
           None \<Rightarrow> None
         | Some (Throws e) \<Rightarrow> Some (Throws e)
         | Some (Returns cells') \<Rightarrow> rowLoop data (num_add r (Fin 1 0)) endRow startCol endCol cells')
      else Some (Returns cells))"

declare colLoop.simps [code] rowLoop.simps [code]

definition colOf :: "string \<Rightarrow> jsnum" where
  "colOf ref = num_add (charCodeAt0 ref) (Fin (- 65) 0)"

definition rowOf :: "string \<Rightarrow> jsnum" where
  "rowOf ref = num_add (parseInt (drop 1 ref)) (Fin (- 1) 0)"

definition parseRange :: "string \<Rightarrow> sheet \<Rightarrow> string list outcome option" where
  "parseRange rangeText data =
     (case split_on CHR '':'' rangeText of
        start # end' # _ \<Rightarrow>
          (let startCol = colOf start;
               startRow = rowOf start;
               endCol = colOf end';
               endRow = rowOf end'
           in rowLoop data startRow endRow startCol endCol [])
      | _ \<Rightarrow> Some (Throws TypeError))"

text \<open>
  \<^verbatim>\<open>
  const parseValues = (arg: string, data: Record<string, CellData>): number[] => {
    const trimmed = arg.trim();
    if (trimmed.includes(':')) {
      return parseRange(trimmed, data).map(val => parseFloat(val) || 0);
    } else {
      const val = evaluateValue(trimmed, data);
      return [parseFloat(val) || 0];
    }
  };
  \<close>
\<close>

definition parseValues :: "string \<Rightarrow> sheet \<Rightarrow> jsnum list outcome option" where
  "parseValues arg data =
     (let trimmed = trim arg
      in if CHR '':'' \<in> set trimmed
         then map_option (map_outcome (map coerce)) (parseRange trimmed data)
         else Some (Returns [coerce (evaluateValue trimmed data)]))"

text \<open>
  \<^verbatim>\<open>evaluateFormula\<close> (lines 154 to 210 of the source): the upper-cased text is tried
  against the six patterns in the source's order; the first that matches decides.
  \<^verbatim>\<open>
    const sumMatch = upperFormula.match(/^SUM\((.+)\)$/);
    if (sumMatch) {
      const values = parseValues(sumMatch[1], data);
      return values.reduce((sum, val) => sum + val, 0).toString();
    }
    ... AVERAGE: values.length > 0 ? (sum / values.length).toString() : '0'
    ... COUNT:   values.filter(val => !isNaN(val)).length.toString()
    ... MIN:     numbers = values.filter(val => !isNaN(val));
                 numbers.length > 0 ? Math.min(...numbers).toString() : '0'
    ... MAX:     the same with Math.max
    const ifMatch = upperFormula.match(/^IF\(([^,]+),([^,]+),([^)]+)\)$/);
    if (ifMatch) {
      const condition = ifMatch[1].trim();
      const trueVal = ifMatch[2].trim();
      const falseVal = ifMatch[3].trim();
      const conditionResult = evaluateCondition(condition, data);
      if (conditionResult) { return evaluateValue(trueVal, data); }
      else { return evaluateValue(falseVal, data); }
    }
    return '0'; // Default
  \<close>
  What \<^verbatim>\<open>parseValues\<close> throws, the formula throws, and so does MIN or MAX when the spread
  call has more numbers than \<open>argumentLimit\<close>.
\<close>

definition sumOf :: "jsnum list \<Rightarrow> jsnum" where
  "sumOf values = foldl (\<lambda>sum v. num_add sum v) (Fin 0 0) values"

definition notNaN :: "jsnum \<Rightarrow> bool" where
  "notNaN v = (v \<noteq> NaN)"

definition sumResult :: "jsnum list \<Rightarrow> string" where
  "sumResult values = numToString (sumOf values)"

definition averageResult :: "jsnum list \<Rightarrow> string" where
  "averageResult values =
     (if 0 < length values then numToString (num_div (sumOf values) (Fin (int (length values)) 0))
      else ''0'')"

definition countResult :: "jsnum list \<Rightarrow> string" where
  "countResult values = numToString (Fin (int (length (filter notNaN values))) 0)"

definition minResult :: "jsnum list \<Rightarrow> string outcome" where
  "minResult values =
     (let numbers = filter notNaN values
      in if 0 < length numbers then map_outcome numToString (math_min numbers) else Returns ''0'')"

definition maxResult :: "jsnum list \<Rightarrow> string outcome" where
  "maxResult values =
     (let numbers = filter notNaN values
      in if 0 < length numbers then map_outcome numToString (math_max numbers) else Returns ''0'')"

definition evaluateFormula :: "string \<Rightarrow> sheet \<Rightarrow> string outcome option" where
  "evaluateFormula formulaText data =
     (let upperFormula = toUpperCase formulaText
      in case match_call ''SUM'' upperFormula of
           Some arg \<Rightarrow> map_option (map_outcome sumResult) (parseValues arg data)
         | None \<Rightarrow>
       (case match_call ''AVERAGE'' upperFormula of
           Some arg \<Rightarrow> map_option (map_outcome averageResult) (parseValues arg data)
         | None \<Rightarrow>
       (case match_call ''COUNT'' upperFormula of
           Some arg \<Rightarrow> map_option (map_outcome countResult) (parseValues arg data)
         | None \<Rightarrow>
       (case match_call ''MIN'' upperFormula of
           Some arg \<Rightarrow>
             (case parseValues arg data of
                None \<Rightarrow> None
              | Some (Throws e) \<Rightarrow> Some (Throws e)
              | Some (Returns values) \<Rightarrow> Some (minResult values))
         | None \<Rightarrow>
       (case match_call ''MAX'' upperFormula of
           Some arg \<Rightarrow>
             (case parseValues arg data of
                None \<Rightarrow> None
              | Some (Throws e) \<Rightarrow> Some (Throws e)
              | Some (Returns values) \<Rightarrow> Some (maxResult values))
         | None \<Rightarrow>
       (case match_if upperFormula of
           Some (a, b, c) \<Rightarrow>
             (if evaluateCondition (trim a) data
              then Some (Returns (evaluateValue (trim b) data))
              else Some (Returns (evaluateValue (trim c) data)))
         | None \<Rightarrow> Some (Returns ''0'')))))))"

section \<open>The sheet, its history and the edit handlers\<close>

text \<open>
  The component keeps \<^verbatim>\<open>data: Record<string, CellData>\<close>, the list \<^verbatim>\<open>history\<close> of such
  records and the cursor \<^verbatim>\<open>historyIndex\<close>. A record binds keys to cell \<^emph>\<open>objects\<close>;
  \<^verbatim>\<open>{ ...data }\<close> copies the bindings and not the objects, and the recalculation pass
  assigns to \<^verbatim>\<open>newData[key].value\<close> in place. So the cell objects live in a store, a
  record is a list of keys with the address of each cell, in insertion order (the
  order of \<^verbatim>\<open>Object.keys\<close> for keys such as \<^verbatim>\<open>A1\<close>), and one object may be bound in
  several records.
\<close>

type_synonym addr = nat

type_synonym cells = "(string \<times> addr) list"

record state =
  heap :: "CellData list"
  data :: cells
  history :: "cells list"
  historyIndex :: int
  selectedCell :: string
  editingCell :: string
  editValue :: string
  isViewOnly :: bool

definition sheetOf :: "CellData list \<Rightarrow> cells \<Rightarrow> sheet" where
  "sheetOf h cs key = (case map_of cs key of None \<Rightarrow> None | Some a \<Rightarrow> Some (h ! a))"

text \<open>What a record shows: its keys with the contents of their cells.\<close>

definition snapshot :: "CellData list \<Rightarrow> cells \<Rightarrow> (string \<times> CellData) list" where
  "snapshot h cs = map (\<lambda>(key, a). (key, h ! a)) cs"

text \<open>\<^verbatim>\<open>newData[key] = cell\<close>: an old key keeps its place, a new key goes last.\<close>

definition assign :: "cells \<Rightarrow> string \<Rightarrow> addr \<Rightarrow> cells" where
  "assign cs key a =
     (if map_of cs key = None then cs @ [(key, a)]
      else map (\<lambda>(k, b). if k = key then (k, a) else (k, b)) cs)"

text \<open>
  \<^verbatim>\<open>
  Object.keys(newData).forEach(key => {
    if (newData[key].formula) {
      newData[key].value = evaluateFormula(newData[key].formula!.slice(1), newData);
    }
  });
  \<close>
\<close>

fun recalc :: "CellData list \<Rightarrow> cells \<Rightarrow> string list \<Rightarrow> CellData list outcome option" where
  "recalc h newData [] = Some (Returns h)"
| "recalc h newData (key # keys) =
     (case map_of newData key of
        None \<Rightarrow> Some (Throws TypeError)
      | Some a \<Rightarrow>
          (case formula (h ! a) of
             None \<Rightarrow> recalc h newData keys
           | Some f \<Rightarrow>
               if f = [] then recalc h newData keys
               else (case evaluateFormula (drop 1 f) (sheetOf h newData) of
                       None \<Rightarrow> None
                     | Some (Throws e) \<Rightarrow> Some (Throws e)
                     | Some (Returns v) \<Rightarrow> recalc (h[a := (h ! a)\<lparr>val := v\<rparr>]) newData keys)))"

text \<open>
  \<^verbatim>\<open>
  const addToHistory = (newData: Record<string, CellData>) => {
    const newHistory = history.slice(0, historyIndex + 1);
    newHistory.push({ ...newData });
    setHistory(newHistory);
    setHistoryIndex(newHistory.length - 1);
  };
  \<close>
\<close>

definition addToHistory :: "cells \<Rightarrow> state \<Rightarrow> state" where
  "addToHistory newData s =
     (let newHistory = take (nat (historyIndex s + 1)) (history s) @ [newData]
      in s\<lparr>history := newHistory, historyIndex := int (length newHistory) - 1\<rparr>)"

text \<open>
  \<^verbatim>\<open>
  const handleCellBlur = () => {
    if (isViewOnly) return;
    const newData = { ...data };
    if (editValue.startsWith('=')) {
      newData[selectedCell] = { value: evaluateFormula(editValue.slice(1), newData), formula: editValue };
    } else {
      newData[selectedCell] = { value: editValue };
    }
    // Re-evaluate all formulas
    Object.keys(newData).forEach(key => { ... });
    setData(newData);
    addToHistory(newData);
    saveData(newData);
    saveVersion(newData, 'Cell edit');
    setEditingCell('');
  };
  \<close>
  The new cell is a fresh object, at the next free address. Saving is the database's
  business and is left out. When an evaluation throws, the handler throws and no state
  is set; when one never returns, neither does the handler.
\<close>

definition newCell :: "string \<Rightarrow> CellData list \<Rightarrow> cells \<Rightarrow> CellData outcome option" where
  "newCell text h newData =
     (if take 1 text = ''=''
      then map_option (map_outcome (\<lambda>v. \<lparr>val = v, formula = Some text\<rparr>))
             (evaluateFormula (drop 1 text) (sheetOf h newData))
      else Some (Returns \<lparr>val = text, formula = None\<rparr>))"

definition handleCellBlur :: "state \<Rightarrow> state outcome option" where
  "handleCellBlur s =
     (if isViewOnly s then Some (Returns s)
      else case newCell (editValue s) (heap s) (data s) of
             None \<Rightarrow> None
           | Some (Throws e) \<Rightarrow> Some (Throws e)
           | Some (Returns cell) \<Rightarrow>
               (let newData = assign (data s) (selectedCell s) (length (heap s))
                in case recalc (heap s @ [cell]) newData (map fst newData) of
                     None \<Rightarrow> None
                   | Some (Throws e) \<Rightarrow> Some (Throws e)
                   | Some (Returns h) \<Rightarrow>
                       Some (Returns ((addToHistory newData (s\<lparr>heap := h, data := newData\<rparr>))
                                        \<lparr>editingCell := []\<rparr>))))"

text \<open>
  \<^verbatim>\<open>
  const handleCellClick = (key: string) => {
    if (isViewOnly) return;
    setSelectedCell(key);
    setEditingCell(key);
    setEditValue(data[key]?.value.toString() || '');
    ...
  };
  const handleCellChange = (value: string) => {
    if (isViewOnly) return;
    setEditValue(value);
  };
  \<close>
\<close>

definition handleCellClick :: "string \<Rightarrow> state \<Rightarrow> state" where
  "handleCellClick key s =
     (if isViewOnly s then s
      else s\<lparr>selectedCell := key, editingCell := key,
             editValue := (case sheetOf (heap s) (data s) key of None \<Rightarrow> [] | Some cell \<Rightarrow> val cell)\<rparr>)"

definition handleCellChange :: "string \<Rightarrow> state \<Rightarrow> state" where
  "handleCellChange v s = (if isViewOnly s then s else s\<lparr>editValue := v\<rparr>)"

text \<open>A committed edit: click the cell, type the text, leave the cell.\<close>

definition commitEdit :: "string \<Rightarrow> string \<Rightarrow> state \<Rightarrow> state outcome option" where
  "commitEdit key text s = handleCellBlur (handleCellChange text (handleCellClick key s))"

text \<open>
  \<^verbatim>\<open>
  const undo = () => {
    if (historyIndex > 0) {
      const newIndex = historyIndex - 1;
      setData(history[newIndex]);
      setHistoryIndex(newIndex);
      saveData(history[newIndex]);
    }
  };
  const redo = () => {
    if (historyIndex < history.length - 1) {
      const newIndex = historyIndex + 1;
      setData(history[newIndex]);
      setHistoryIndex(newIndex);
      saveData(history[newIndex]);
    }
  };
  \<close>
\<close>

definition undo :: "state \<Rightarrow> state" where
  "undo s =
     (if 0 < historyIndex s
      then s\<lparr>data := history s ! nat (historyIndex s - 1), historyIndex := historyIndex s - 1\<rparr>
      else s)"

definition redo :: "state \<Rightarrow> state" where
  "redo s =
     (if historyIndex s < int (length (history s)) - 1
      then s\<lparr>data := history s ! nat (historyIndex s + 1), historyIndex := historyIndex s + 1\<rparr>
      else s)"

text \<open>The component's first state: \<^verbatim>\<open>useState({})\<close>, \<^verbatim>\<open>useState([])\<close>, \<^verbatim>\<open>useState(-1)\<close>.\<close>

definition initial :: state where
  "initial = \<lparr>heap = [], data = [], history = [], historyIndex = - 1, selectedCell = [],
              editingCell = [], editValue = [], isViewOnly = False\<rparr>"

text \<open>Running handlers one after the other, as long as each returns.\<close>

definition andThen :: "state outcome option \<Rightarrow> (state \<Rightarrow> state outcome option) \<Rightarrow> state outcome option" where
  "andThen m f = (case m of None \<Rightarrow> None | Some (Throws e) \<Rightarrow> Some (Throws e) | Some (Returns s) \<Rightarrow> f s)"

section \<open>What the claims speak of\<close>

text \<open>
  The cells of the rectangle from row \<open>startRow\<close>, column \<open>startCol\<close> to row \<open>endRow\<close>,
  column \<open>endCol\<close> (zero-based, as in the source), row by row; empty when an end lies
  before its start.
\<close>

definition rangeCells :: "sheet \<Rightarrow> int \<Rightarrow> int \<Rightarrow> int \<Rightarrow> int \<Rightarrow> string list" where
  "rangeCells d startRow endRow startCol endCol =
     concat (map (\<lambda>r. map (\<lambda>c. cellText d (cellKey (Fin c 0) (Fin r 0))) [startCol..endCol])
                 [startRow..endRow])"

text \<open>
  The argument of the aggregate pattern (SUM, AVERAGE, COUNT, MIN, MAX) that a formula
  text matches, and the text it hands to \<^verbatim>\<open>parseRange\<close>, if any.
\<close>

definition aggregateArg :: "string \<Rightarrow> string option" where
  "aggregateArg formulaText =
     (let u = toUpperCase formulaText
      in case match_call ''SUM'' u of Some arg \<Rightarrow> Some arg | None \<Rightarrow>
        (case match_call ''AVERAGE'' u of Some arg \<Rightarrow> Some arg | None \<Rightarrow>
        (case match_call ''COUNT'' u of Some arg \<Rightarrow> Some arg | None \<Rightarrow>
        (case match_call ''MIN'' u of Some arg \<Rightarrow> Some arg | None \<Rightarrow>
         match_call ''MAX'' u))))"

definition rangeArg :: "string \<Rightarrow> string option" where
  "rangeArg formulaText =
     (case aggregateArg formulaText of
        None \<Rightarrow> None
      | Some arg \<Rightarrow> if CHR '':'' \<in> set (trim arg) then Some (trim arg) else None)"

definition recognised :: "string \<Rightarrow> bool" where
  "recognised formulaText =
     (case aggregateArg formulaText of
        Some _ \<Rightarrow> True
      | None \<Rightarrow> (case match_if (toUpperCase formulaText) of Some _ \<Rightarrow> True | None \<Rightarrow> False))"

text \<open>
  The endpoints of a range text whose rows are integers of magnitude below \<open>2 ^ 53\<close>
  and that has at most \<open>2 ^ 32 - 1\<close> cells: the column character and the row of the
  first part and of the second.
\<close>

definition rangeEnds :: "string \<Rightarrow> (char \<times> int \<times> char \<times> int) option" where
  "rangeEnds t =
     (case split_on CHR '':'' t of
        start # end' # _ \<Rightarrow>
          (case (start, end', parseInt (drop 1 start), parseInt (drop 1 end')) of
             (c1 # _, c2 # _, Fin r1 0, Fin r2 0) \<Rightarrow>
               if - (2 ^ 53) + 1 < r1 \<and> r1 < 2 ^ 53 \<and> - (2 ^ 53) + 1 < r2 \<and> r2 < 2 ^ 53
                  \<and> (r2 + 1 - r1) * (if code c1 \<le> code c2 then int (code c2) + 1 - int (code c1) else 0)
                       \<le> 4294967295
               then Some (c1, r1, c2, r2) else None
           | _ \<Rightarrow> None)
      | _ \<Rightarrow> None)"

text \<open>
  The sum the claims speak of. A value counts as the number it reads as, and as 0 when
  it reads as none; the numbers are added to 0 one after the other, from the first to the
  last, each addition rounding as doubles do.
\<close>

definition numberOf :: "string \<Rightarrow> jsnum" where
  "numberOf v = (case parseFloat v of NaN \<Rightarrow> Fin 0 0 | x \<Rightarrow> x)"

fun addedUp :: "jsnum \<Rightarrow> jsnum list \<Rightarrow> jsnum" where
  "addedUp acc [] = acc"
| "addedUp acc (x # xs) = addedUp (num_add acc x) xs"

definition totalOf :: "string list \<Rightarrow> jsnum" where
  "totalOf vs = addedUp (Fin 0 0) (map numberOf vs)"

text \<open>
  A range text is within the limit \<open>n\<close> when its row loop does not run at all, or runs
  over rows that are integers of magnitude below \<open>2 ^ 53\<close> and collects at most \<open>n\<close>
  cells.
\<close>

definition columnsOf :: "jsnum \<Rightarrow> jsnum \<Rightarrow> int" where
  "columnsOf startCol endCol =
     (case (startCol, endCol) of
        (Fin c 0, Fin e 0) \<Rightarrow> (if c \<le> e then e + 1 - c else 0)
      | _ \<Rightarrow> 0)"

definition withinLimits :: "int \<Rightarrow> string \<Rightarrow> bool" where
  "withinLimits n rangeText =
     (case split_on CHR '':'' rangeText of
        start # end' # _ \<Rightarrow>
          (if num_le (rowOf start) (rowOf end') then
             (case (rowOf start, rowOf end') of
                (Fin a 0, Fin b 0) \<Rightarrow>
                   - (2 ^ 53) < a \<and> b < 2 ^ 53 - 1
                   \<and> (b + 1 - a) * columnsOf (colOf start) (colOf end') \<le> n
              | _ \<Rightarrow> False)
           else True)
      | _ \<Rightarrow> False)"

text \<open>
  A record is well formed in a store when its keys are distinct, its cells are distinct
  objects and every cell is in the store. The handlers build only such records.
\<close>

definition wfCells :: "CellData list \<Rightarrow> cells \<Rightarrow> bool" where
  "wfCells h cs = (distinct (map fst cs) \<and> distinct (map snd cs)
                   \<and> list_all (\<lambda>a. a < length h) (map snd cs))"

text \<open>
  The number of cells a formula text may collect: what an array holds, \<open>2 ^ 32 - 1\<close>, and
  for MIN and MAX, which pass the numbers as arguments of one call, \<open>argumentLimit\<close>.
\<close>

definition cellLimit :: "string \<Rightarrow> int" where
  "cellLimit formulaText =
     (let u = toUpperCase formulaText
      in case match_call ''MIN'' u of
           Some _ \<Rightarrow> argumentLimit
         | None \<Rightarrow> (case match_call ''MAX'' u of Some _ \<Rightarrow> argumentLimit | None \<Rightarrow> 4294967295))"

text \<open>
  A formula text is in limits when it is \<open>upperIsLatin1\<close> and hands no range to
  \<^verbatim>\<open>parseRange\<close> or one that is within its cell limit; a store is, when the formula of
  every cell is.
\<close>

definition inLimits :: "string \<Rightarrow> bool" where
  "inLimits formulaText =
     (upperIsLatin1 formulaText
      \<and> (case rangeArg formulaText of None \<Rightarrow> True | Some t \<Rightarrow> withinLimits (cellLimit formulaText) t))"

definition formulasInLimits :: "CellData list \<Rightarrow> bool" where
  "formulasInLimits h =
     list_all (\<lambda>cell. case formula cell of None \<Rightarrow> True | Some f \<Rightarrow> inLimits (drop 1 f)) h"

text \<open>
  A state is well formed when its sheet and every history entry are, and the cursor
  points at an entry or, before the first edit, is \<open>-1\<close>.
\<close>

definition wfState :: "state \<Rightarrow> bool" where
  "wfState s = (wfCells (heap s) (data s) \<and> list_all (wfCells (heap s)) (history s)
                \<and> - 1 \<le> historyIndex s \<and> historyIndex s < int (length (history s)))"

section \<open>Example sheets\<close>

definition plain :: "string \<Rightarrow> CellData" where
  "plain v = \<lparr>val = v, formula = None\<rparr>"

definition sheetA :: sheet where
  "sheetA = [''A1'' \<mapsto> plain ''1'', ''A2'' \<mapsto> plain ''x'', ''A3'' \<mapsto> plain ''3'']"

definition sheetTen :: sheet where
  "sheetTen = [''A1'' \<mapsto> plain ''10'']"

definition sheetThree :: sheet where
  "sheetThree = [''A1'' \<mapsto> plain ''3'']"

definition sheetMin :: sheet where
  "sheetMin = [''A1'' \<mapsto> plain ''x'', ''A2'' \<mapsto> plain ''5'']"

definition sheetMax :: sheet where
  "sheetMax = [''A1'' \<mapsto> plain ''x'', ''A2'' \<mapsto> plain ''-5'']"

text \<open>
  Three runs of committed edits from the component's first state, and the states in
  which the third edit of each has been typed and the cell not yet left.
\<close>

definition chainEdits :: "state outcome option" where
  "chainEdits = andThen (andThen (commitEdit ''A1'' ''=SUM(B1)'' initial)
                   (commitEdit ''B1'' ''=SUM(C1)'')) (commitEdit ''C1'' ''5'')"

definition chainTyped :: state where
  "chainTyped =
     \<lparr>heap = [\<lparr>val = ''0'', formula = Some ''=SUM(B1)''\<rparr>, \<lparr>val = ''0'', formula = Some ''=SUM(C1)''\<rparr>],
      data = [(''A1'', 0), (''B1'', 1)],
      history = [[(''A1'', 0)], [(''A1'', 0), (''B1'', 1)]],
      historyIndex = 1, selectedCell = ''C1'', editingCell = ''C1'', editValue = ''5'',
      isViewOnly = False\<rparr>"

definition chainDone :: state where
  "chainDone =
     \<lparr>heap = [\<lparr>val = ''0'', formula = Some ''=SUM(B1)''\<rparr>, \<lparr>val = ''5'', formula = Some ''=SUM(C1)''\<rparr>,
              \<lparr>val = ''5'', formula = None\<rparr>],
      data = [(''A1'', 0), (''B1'', 1), (''C1'', 2)],
      history = [[(''A1'', 0)], [(''A1'', 0), (''B1'', 1)], [(''A1'', 0), (''B1'', 1), (''C1'', 2)]],
      historyIndex = 2, selectedCell = ''C1'', editingCell = [], editValue = ''5'',
      isViewOnly = False\<rparr>"

definition twoCells :: "state outcome option" where
  "twoCells = andThen (commitEdit ''A1'' ''5'' initial) (commitEdit ''B1'' ''=SUM(A1)'')"

definition twoCellsTyped :: "string \<Rightarrow> state" where
  "twoCellsTyped text =
     \<lparr>heap = [\<lparr>val = ''5'', formula = None\<rparr>, \<lparr>val = ''5'', formula = Some ''=SUM(A1)''\<rparr>],
      data = [(''A1'', 0), (''B1'', 1)],
      history = [[(''A1'', 0)], [(''A1'', 0), (''B1'', 1)]],
      historyIndex = 1, selectedCell = ''A1'', editingCell = ''A1'', editValue = text,
      isViewOnly = False\<rparr>"

definition threeCommits :: "state outcome option" where
  "threeCommits = andThen (andThen (commitEdit ''B1'' ''=SUM(A1)'' initial)
                     (commitEdit ''A1'' ''5'')) (commitEdit ''A1'' ''7'')"

text \<open>What a run shows in the end, if it returns.\<close>

definition shown :: "state outcome option \<Rightarrow> (string \<times> CellData) list outcome option" where
  "shown run = map_option (map_outcome (\<lambda>s. snapshot (heap s) (data s))) run"

section \<open>Counters that are integers\<close>

text \<open>
  Integers of magnitude below \<open>2 ^ 53\<close> are doubles, and adding two of them is exact as
  long as the sum stays below \<open>2 ^ 53\<close>. On such counters the two loops of
  \<^verbatim>\<open>parseRange\<close> run from the first value to the last and return.
\<close>

lemma bitlen_le: "0 \<le> n \<Longrightarrow> n < 2 ^ k \<Longrightarrow> bitlen n \<le> k"
proof (induction k arbitrary: n)
  case 0
  then show ?case by (simp add: bitlen.simps)
next
  case (Suc k)
  show ?case
  proof (cases "n \<le> 0")
    case True
    then show ?thesis by (simp add: bitlen.simps)
  next
    case False
    with Suc.prems have "0 \<le> n div 2" "n div 2 < 2 ^ k" by auto
    then have "bitlen (n div 2) \<le> k" by (rule Suc.IH)
    with False show ?thesis by (subst bitlen.simps) simp
  qed
qed

lemma round_dyadic_int: "\<bar>m\<bar> < 2 ^ 53 \<Longrightarrow> round_dyadic m 0 = Fin m 0"
proof -
  assume a: "\<bar>m\<bar> < 2 ^ 53"
  have "bitlen \<bar>m\<bar> \<le> 53" by (rule bitlen_le) (use a in auto)
  then show ?thesis by (simp add: round_dyadic_def Let_def)
qed

lemma num_add_int: "\<bar>a + b\<bar> < 2 ^ 53 \<Longrightarrow> num_add (Fin a 0) (Fin b 0) = Fin (a + b) 0"
  by (simp add: round_dyadic_int)

lemma num_le_int: "num_le (Fin a 0) (Fin b 0) = (a \<le> b)"
  by (auto simp: num_le_def)

lemma colLoop_ints:
  "- (2 ^ 53) < a \<Longrightarrow> b < 2 ^ 53 - 1 \<Longrightarrow> int (length cells) + (b + 1 - a) \<le> 4294967295 \<Longrightarrow>
   colLoop d r (Fin a 0) (Fin b 0) cells =
     Some (Returns (cells @ map (\<lambda>c. cellText d (cellKey (Fin c 0) r)) [a..b]))"
proof (induction "nat (b + 1 - a)" arbitrary: a cells)
  case 0
  then have "\<not> a \<le> b" by simp
  then show ?case by (subst colLoop.simps) (simp add: num_le_int)
next
  case (Suc n)
  then have le: "a \<le> b" by linarith
  have step: "num_add (Fin a 0) (Fin 1 0) = Fin (a + 1) 0"
    by (rule num_add_int) (use Suc.prems le in auto)
  have len: "int (length cells) < 4294967295" using Suc.prems le by linarith
  have ih: "colLoop d r (Fin (a + 1) 0) (Fin b 0) (cells @ [cellText d (cellKey (Fin a 0) r)]) =
     Some (Returns ((cells @ [cellText d (cellKey (Fin a 0) r)]) @ map (\<lambda>c. cellText d (cellKey (Fin c 0) r)) [a + 1..b]))"
    by (rule Suc.hyps(1)) (use Suc.prems Suc.hyps(2) le in auto)
  have upto: "[a..b] = a # [a + 1..b]" using le by (simp add: upto_rec1)
  show ?case
    by (subst colLoop.simps) (use len in \<open>simp add: num_le_int le step ih upto del: num_add.simps\<close>)
qed

lemma colLoop_skip: "\<not> num_le sc ec \<Longrightarrow> colLoop d r sc ec cells = Some (Returns cells)"
  by (subst colLoop.simps) simp

text \<open>The row loop over integer rows, for any column loop that appends \<open>g r\<close>.\<close>

lemma rowLoop_ints:
  assumes col: "\<And>r cells. int (length cells) + w \<le> 4294967295 \<Longrightarrow>
                  colLoop d (Fin r 0) sc ec cells = Some (Returns (cells @ g r))"
    and w: "\<And>r. int (length (g r)) = w"
  shows "- (2 ^ 53) < a \<Longrightarrow> b < 2 ^ 53 - 1 \<Longrightarrow>
         int (length cells) + (b + 1 - a) * w \<le> 4294967295 \<Longrightarrow>
         rowLoop d (Fin a 0) (Fin b 0) sc ec cells = Some (Returns (cells @ concat (map g [a..b])))"
proof (induction "nat (b + 1 - a)" arbitrary: a cells)
  case 0
  then have "\<not> a \<le> b" by simp
  then show ?case by (subst rowLoop.simps) (simp add: num_le_int)
next
  case (Suc n)
  then have le: "a \<le> b" by linarith
  have w0: "0 \<le> w" using w[of 0] by linarith
  have step: "num_add (Fin a 0) (Fin 1 0) = Fin (a + 1) 0"
    by (rule num_add_int) (use Suc.prems le in auto)
  have "w \<le> (b + 1 - a) * w" using le w0 by (simp add: mult_le_cancel_right1)
  then have "int (length cells) + w \<le> 4294967295" using Suc.prems(3) by linarith
  then have c: "colLoop d (Fin a 0) sc ec cells = Some (Returns (cells @ g a))" by (rule col)
  have "int (length (cells @ g a)) + (b + 1 - (a + 1)) * w = int (length cells) + (b + 1 - a) * w"
    using w[of a] by (simp add: algebra_simps)
  then have bound: "int (length (cells @ g a)) + (b + 1 - (a + 1)) * w \<le> 4294967295"
    using Suc.prems(3) by linarith
  have ih: "rowLoop d (Fin (a + 1) 0) (Fin b 0) sc ec (cells @ g a) =
              Some (Returns ((cells @ g a) @ concat (map g [a + 1..b])))"
    by (rule Suc.hyps(1)) (use Suc.prems Suc.hyps(2) le bound in auto)
  have upto: "[a..b] = a # [a + 1..b]" using le by (simp add: upto_rec1)
  show ?case
    by (subst rowLoop.simps) (simp add: num_le_int le step c ih upto del: num_add.simps)
qed

lemma rowLoop_skip: "\<not> num_le sr er \<Longrightarrow> rowLoop d sr er sc ec cells = Some (Returns cells)"
  by (subst rowLoop.simps) simp

lemma length_upto: "int (length [c..e]) = (if c \<le> e then e + 1 - c else 0)"
  by simp

text \<open>The two loops together, over integer rows and columns.\<close>

lemma rowLoop_rect:
  assumes "- (2 ^ 53) < a" "b < 2 ^ 53 - 1" "- (2 ^ 53) < c" "e < 2 ^ 53 - 1"
    and "(b + 1 - a) * (if c \<le> e then e + 1 - c else 0) \<le> 4294967295"
  shows "rowLoop d (Fin a 0) (Fin b 0) (Fin c 0) (Fin e 0) [] = Some (Returns (rangeCells d a b c e))"
proof -
  let ?w = "if c \<le> e then e + 1 - c else 0"
  let ?g = "\<lambda>r. map (\<lambda>k. cellText d (cellKey (Fin k 0) (Fin r 0))) [c..e]"
  have col: "colLoop d (Fin r 0) (Fin c 0) (Fin e 0) cells = Some (Returns (cells @ ?g r))"
    if "int (length cells) + ?w \<le> 4294967295" for r cells
  proof (cases "c \<le> e")
    case True
    with that assms show ?thesis by (intro colLoop_ints) auto
  next
    case False
    then show ?thesis by (simp add: colLoop_skip num_le_int)
  qed
  have w: "int (length (?g r)) = ?w" for r by simp
  have "rowLoop d (Fin a 0) (Fin b 0) (Fin c 0) (Fin e 0) [] = Some (Returns ([] @ concat (map ?g [a..b])))"
    by (rule rowLoop_ints[where w = ?w, OF col w]) (use assms in auto)
  then show ?thesis by (simp add: rangeCells_def)
qed


lemma colOf_Nil: "colOf [] = NaN"
  by (simp add: colOf_def charCodeAt0_def)

lemma colOf_Cons: "colOf (c # cs) = Fin (int (code c) - 65) 0"
proof -
  have "code c < 256" by (simp add: code_def)
  then have "\<bar>int (code c) + (- 65)\<bar> < 2 ^ 53" by simp
  then have "num_add (Fin (int (code c)) 0) (Fin (- 65) 0) = Fin (int (code c) + (- 65)) 0"
    by (rule num_add_int)
  then show ?thesis by (simp add: colOf_def charCodeAt0_def del: num_add.simps)
qed

lemma rowOf_int:
  "parseInt (drop 1 ref) = Fin r 0 \<Longrightarrow> \<bar>r - 1\<bar> < 2 ^ 53 \<Longrightarrow> rowOf ref = Fin (r - 1) 0"
  using num_add_int[of r "- 1"] by (simp add: rowOf_def del: num_add.simps)

lemma rowLoop_nocols:
  assumes "\<not> num_le sc ec" "- (2 ^ 53) < a" "b < 2 ^ 53 - 1"
  shows "rowLoop d (Fin a 0) (Fin b 0) sc ec [] = Some (Returns [])"
proof -
  have "rowLoop d (Fin a 0) (Fin b 0) sc ec [] = Some (Returns ([] @ concat (map (\<lambda>r. []) [a..b])))"
    by (rule rowLoop_ints[where w = 0]) (use assms in \<open>auto simp: colLoop_skip\<close>)
  then show ?thesis by simp
qed

lemma split_on_nonempty: "split_on sep s \<noteq> []"
  by (induction s) (auto split: list.splits)

lemma split_on_colon: "sep \<in> set s \<Longrightarrow> \<exists>start end' rest. split_on sep s = start # end' # rest"
proof (induction s)
  case Nil
  then show ?case by simp
next
  case (Cons c cs)
  show ?case
  proof (cases "c = sep")
    case True
    then show ?thesis using split_on_nonempty[of sep cs] by (cases "split_on sep cs") auto
  next
    case False
    with Cons obtain start end' rest where "split_on sep cs = start # end' # rest" by auto
    with False show ?thesis by simp
  qed
qed

lemma split_on_two: "split_on sep s = a # b # rest \<Longrightarrow> sep \<in> set s"
proof (induction s arbitrary: a)
  case Nil
  then show ?case by simp
next
  case (Cons c cs)
  show ?case
  proof (cases "c = sep")
    case True
    then show ?thesis by simp
  next
    case False
    with Cons.prems obtain a' where "split_on sep cs = a' # b # rest"
      by (auto split: list.splits)
    then have "sep \<in> set cs" by (rule Cons.IH)
    then show ?thesis by simp
  qed
qed

lemma parseRange_rect:
  assumes split: "split_on CHR '':'' rng = (c1 # ds1) # (c2 # ds2) # rest"
    and r1: "parseInt ds1 = Fin r1 0" and r2: "parseInt ds2 = Fin r2 0"
    and b1: "- (2 ^ 53) + 1 < r1" "r1 < 2 ^ 53" and b2: "- (2 ^ 53) + 1 < r2" "r2 < 2 ^ 53"
    and cnt: "(r2 + 1 - r1) * (if code c1 \<le> code c2 then int (code c2) + 1 - int (code c1) else 0)
                \<le> 4294967295"
  shows "parseRange rng d =
           Some (Returns (rangeCells d (r1 - 1) (r2 - 1) (int (code c1) - 65) (int (code c2) - 65)))"
proof -
  have sr: "rowOf (c1 # ds1) = Fin (r1 - 1) 0" by (rule rowOf_int) (use r1 b1 in auto)
  have er: "rowOf (c2 # ds2) = Fin (r2 - 1) 0" by (rule rowOf_int) (use r2 b2 in auto)
  have k1: "code c1 < 256" and k2: "code c2 < 256" by (simp_all add: code_def)
  have eq: "(r2 - 1 + 1 - (r1 - 1)) *
              (if int (code c1) - 65 \<le> int (code c2) - 65
               then int (code c2) - 65 + 1 - (int (code c1) - 65) else 0) =
            (r2 + 1 - r1) * (if code c1 \<le> code c2 then int (code c2) + 1 - int (code c1) else 0)"
    by (simp add: algebra_simps)
  have "rowLoop d (Fin (r1 - 1) 0) (Fin (r2 - 1) 0) (Fin (int (code c1) - 65) 0) (Fin (int (code c2) - 65) 0) [] =
          Some (Returns (rangeCells d (r1 - 1) (r2 - 1) (int (code c1) - 65) (int (code c2) - 65)))"
  proof (rule rowLoop_rect)
    show "(r2 - 1 + 1 - (r1 - 1)) *
              (if int (code c1) - 65 \<le> int (code c2) - 65
               then int (code c2) - 65 + 1 - (int (code c1) - 65) else 0) \<le> 4294967295"
      unfolding eq by (rule cnt)
  qed (use b1 b2 k1 k2 in auto)
  then show ?thesis
    by (simp add: parseRange_def split sr er colOf_Cons Let_def)
qed

lemma parseRange_NaN:
  assumes split: "split_on CHR '':'' rng = start # end' # rest"
    and nan: "parseInt (drop 1 start) = NaN \<or> parseInt (drop 1 end') = NaN"
  shows "parseRange rng d = Some (Returns [])"
proof -
  from nan have "rowOf start = NaN \<or> rowOf end' = NaN" by (auto simp: rowOf_def)
  then have "\<not> num_le (rowOf start) (rowOf end')" by (auto simp: num_le_def)
  then show ?thesis by (simp add: parseRange_def split Let_def rowLoop_skip)
qed

lemma rangeEnds_parseRange:
  assumes "rangeEnds t = Some (c1, r1, c2, r2)"
  shows "parseRange t d =
           Some (Returns (rangeCells d (r1 - 1) (r2 - 1) (int (code c1) - 65) (int (code c2) - 65)))"
    and "CHR '':'' \<in> set t"
proof -
  from assms obtain ds1 ds2 rest where
    split: "split_on CHR '':'' t = (c1 # ds1) # (c2 # ds2) # rest"
    and r: "parseInt ds1 = Fin r1 0" "parseInt ds2 = Fin r2 0"
    and b: "- (2 ^ 53) + 1 < r1" "r1 < 2 ^ 53" "- (2 ^ 53) + 1 < r2" "r2 < 2 ^ 53"
    and cnt: "(r2 + 1 - r1) * (if code c1 \<le> code c2 then int (code c2) + 1 - int (code c1) else 0)
                \<le> 4294967295"
    by (auto simp: rangeEnds_def split: list.splits jsnum.splits nat.splits if_splits)
  from split r b cnt show "parseRange t d =
           Some (Returns (rangeCells d (r1 - 1) (r2 - 1) (int (code c1) - 65) (int (code c2) - 65)))"
    by (rule parseRange_rect)
  from split show "CHR '':'' \<in> set t" by (rule split_on_two)
qed

lemma colOf_cases: "colOf ref = NaN \<or> (\<exists>c. colOf ref = Fin c 0 \<and> - 65 \<le> c \<and> c < 191)"
proof (cases ref)
  case Nil
  then show ?thesis by (simp add: colOf_Nil)
next
  case (Cons c cs)
  have "code c < 256" by (simp add: code_def)
  then show ?thesis unfolding Cons colOf_Cons by auto
qed

lemma length_rangeCells:
  "int (length (rangeCells d a b c e)) =
     (if a \<le> b then b + 1 - a else 0) * (if c \<le> e then e + 1 - c else 0)"
proof -
  have "(b - a + 1) * (e - c + 1) = (b + 1 - a) * (e + 1 - c)" by (simp add: algebra_simps)
  then show ?thesis by (simp add: rangeCells_def length_concat comp_def sum_list_triv)
qed

lemma parseRange_returns:
  assumes "withinLimits n rng" and "0 \<le> n" and "n \<le> 4294967295"
  shows "\<exists>cells. parseRange rng d = Some (Returns cells) \<and> int (length cells) \<le> n"
proof -
  from assms(1) obtain start end' rest where split: "split_on CHR '':'' rng = start # end' # rest"
    by (auto simp: withinLimits_def split: list.splits)
  show ?thesis
  proof (cases "num_le (rowOf start) (rowOf end')")
    case False
    then show ?thesis using assms(2) by (simp add: parseRange_def split Let_def rowLoop_skip)
  next
    case True
    with assms(1) split obtain a b where sr: "rowOf start = Fin a 0" and er: "rowOf end' = Fin b 0"
      and ab: "- (2 ^ 53) < a" "b < 2 ^ 53 - 1"
      and cnt: "(b + 1 - a) * columnsOf (colOf start) (colOf end') \<le> n"
      by (auto simp: withinLimits_def split: jsnum.splits nat.splits)
    from True have le_ab: "a \<le> b" by (simp add: sr er num_le_int)
    show ?thesis
    proof (cases "num_le (colOf start) (colOf end')")
      case False
      then have "rowLoop d (Fin a 0) (Fin b 0) (colOf start) (colOf end') [] = Some (Returns [])"
        using ab by (rule rowLoop_nocols)
      then show ?thesis using assms(2) by (simp add: parseRange_def split Let_def sr er)
    next
      case le: True
      from le colOf_cases[of start] colOf_cases[of end'] obtain c e
        where sc: "colOf start = Fin c 0" and ec: "colOf end' = Fin e 0"
          and ce: "- 65 \<le> c" "e < 191"
        by (auto simp: num_le_def)
      from cnt have cnt': "(b + 1 - a) * (if c \<le> e then e + 1 - c else 0) \<le> n"
        by (simp add: columnsOf_def sc ec)
      with assms(3) have "(b + 1 - a) * (if c \<le> e then e + 1 - c else 0) \<le> 4294967295"
        by linarith
      then have "rowLoop d (Fin a 0) (Fin b 0) (Fin c 0) (Fin e 0) [] = Some (Returns (rangeCells d a b c e))"
        using ab ce by (intro rowLoop_rect) auto
      then have "parseRange rng d = Some (Returns (rangeCells d a b c e))"
        by (simp add: parseRange_def split Let_def sr er sc ec)
      moreover have "int (length (rangeCells d a b c e)) \<le> n"
        unfolding length_rangeCells using cnt' le_ab by simp
      ultimately show ?thesis by blast
    qed
  qed
qed


lemma stalled_step: "num_add (Fin 9007199254740992 0) (Fin 1 0) = Fin 9007199254740992 0"
  by code_simp

lemma rowLoop_stalls:
  assumes "rowLoop d r endRow sc ec cells = Some y"
  shows "\<not> (r = Fin 9007199254740992 0 \<and> endRow = Fin 9007199254740992 0 \<and> sc = Fin 1 0 \<and> ec = Fin 0 0)"
proof (rule rowLoop.raw_induct[where P = "\<lambda>d r endRow sc ec cells y.
          \<not> (r = Fin 9007199254740992 0 \<and> endRow = Fin 9007199254740992 0 \<and> sc = Fin 1 0 \<and> ec = Fin 0 0)",
        OF _ assms])
  fix rowLoop' :: "sheet \<Rightarrow> jsnum \<Rightarrow> jsnum \<Rightarrow> jsnum \<Rightarrow> jsnum \<Rightarrow> string list \<Rightarrow> string list outcome option"
  fix d r endRow sc ec cells y
  assume ih: "\<And>d r endRow sc ec cells y. rowLoop' d r endRow sc ec cells = Some y \<Longrightarrow>
          \<not> (r = Fin 9007199254740992 0 \<and> endRow = Fin 9007199254740992 0 \<and> sc = Fin 1 0 \<and> ec = Fin 0 0)"
    and body: "(if num_le r endRow
      then case colLoop d r sc ec cells of None \<Rightarrow> None
           | Some (Returns cells') \<Rightarrow> rowLoop' d (num_add r (Fin 1 0)) endRow sc ec cells'
           | Some (Throws e) \<Rightarrow> Some (Throws e)
      else Some (Returns cells)) = Some y"
  show "\<not> (r = Fin 9007199254740992 0 \<and> endRow = Fin 9007199254740992 0 \<and> sc = Fin 1 0 \<and> ec = Fin 0 0)"
  proof
    assume st: "r = Fin 9007199254740992 0 \<and> endRow = Fin 9007199254740992 0 \<and> sc = Fin 1 0 \<and> ec = Fin 0 0"
    have col: "colLoop d r (Fin 1 0) (Fin 0 0) cells = Some (Returns cells)"
      by (rule colLoop_skip) (simp add: num_le_def)
    from body st col
    have "rowLoop' d (Fin 9007199254740992 0) (Fin 9007199254740992 0) (Fin 1 0) (Fin 0 0) cells = Some y"
      by (simp add: num_le_int stalled_step del: num_add.simps)
    from ih[OF this] show False by simp
  qed
qed

lemma rowLoop_never_returns:
  "rowLoop d (Fin 9007199254740992 0) (Fin 9007199254740992 0) (Fin 1 0) (Fin 0 0) cells = None"
  using rowLoop_stalls[of d "Fin 9007199254740992 0" "Fin 9007199254740992 0" "Fin 1 0" "Fin 0 0" cells]
  by (cases "rowLoop d (Fin 9007199254740992 0) (Fin 9007199254740992 0) (Fin 1 0) (Fin 0 0) cells") auto

lemma parseRange_hangs: "parseRange ''B9007199254740992:A9007199254740994'' d = None"
proof -
  have sp: "split_on CHR '':'' ''B9007199254740992:A9007199254740994'' = [''B9007199254740992'', ''A9007199254740994'']"
    by code_simp
  have sr: "rowOf ''B9007199254740992'' = Fin 9007199254740991 0" by code_simp
  have er: "rowOf ''A9007199254740994'' = Fin 9007199254740992 0" by code_simp
  have sc: "colOf ''B9007199254740992'' = Fin 1 0" by code_simp
  have ec: "colOf ''A9007199254740994'' = Fin 0 0" by code_simp
  have st: "num_add (Fin 9007199254740991 0) (Fin 1 0) = Fin 9007199254740992 0" by code_simp
  have col: "colLoop d (Fin 9007199254740991 0) (Fin 1 0) (Fin 0 0) [] = Some (Returns [])"
    by (rule colLoop_skip) (simp add: num_le_def)
  have "rowLoop d (Fin 9007199254740991 0) (Fin 9007199254740992 0) (Fin 1 0) (Fin 0 0) [] =
        rowLoop d (Fin 9007199254740992 0) (Fin 9007199254740992 0) (Fin 1 0) (Fin 0 0) []"
    by (subst rowLoop.simps) (simp add: num_le_int col st del: num_add.simps)
  then show ?thesis
    by (simp add: parseRange_def sp sr er sc ec Let_def rowLoop_never_returns)
qed

lemma parseValues_returns:
  assumes "CHR '':'' \<in> set (trim arg) \<Longrightarrow> withinLimits n (trim arg)"
    and "1 \<le> n" and "n \<le> 4294967295"
  shows "\<exists>vs. parseValues arg d = Some (Returns vs) \<and> int (length vs) \<le> n"
proof (cases "CHR '':'' \<in> set (trim arg)")
  case True
  with assms have "withinLimits n (trim arg)" "0 \<le> n" by simp_all
  from parseRange_returns[OF this assms(3)] obtain cells
    where "parseRange (trim arg) d = Some (Returns cells)" "int (length cells) \<le> n"
    by blast
  with True show ?thesis by (simp add: parseValues_def Let_def)
next
  case False
  with assms(2) show ?thesis by (simp add: parseValues_def Let_def)
qed

lemma match_call_intro:
  assumes "arg \<noteq> []" and "filter isLineEnd arg = []"
  shows "match_call name (name @ ''('' @ arg @ '')'') = Some arg"
  using assms by (cases arg) (simp_all add: match_call_def Let_def)

lemma upper_fixed: "\<forall>c \<in> set v. upperChar c = [c] \<Longrightarrow> toUpperCase v = v"
  by (induction v) (simp_all add: toUpperCase_def)

lemma isCellRef_upper:
  assumes "isCellRef v"
  shows "toUpperCase v = v"
proof (rule upper_fixed, rule ballI)
  fix c assume "c \<in> set v"
  then have "c \<in> set (takeWhile isUpper v) \<or> c \<in> set (dropWhile isUpper v)"
    by (metis Un_iff set_append takeWhile_dropWhile_id)
  with assms have "isUpper c \<or> isDigit c"
    by (auto simp: isCellRef_def list_all_iff dest: set_takeWhileD)
  then show "upperChar c = [c]" by (auto simp: upperChar_def isUpper_def isDigit_def)
qed

lemma default_zero: "\<not> recognised f \<Longrightarrow> evaluateFormula f d = Some (Returns ''0'')"
  by (auto simp: recognised_def evaluateFormula_def aggregateArg_def Let_def split: option.splits)

lemma cellLimit_bounds: "1 \<le> cellLimit f \<and> cellLimit f \<le> 4294967295"
  by (simp add: cellLimit_def argumentLimit_def Let_def split: option.splits)

lemma spread_returns:
  assumes "int (length vs) \<le> argumentLimit"
  shows "(\<exists>v. minResult vs = Returns v) \<and> (\<exists>v. maxResult vs = Returns v)"
proof -
  have "length (filter notNaN vs) \<le> length vs" by (rule length_filter_le)
  with assms have "int (length (filter notNaN vs)) \<le> argumentLimit" by linarith
  then show ?thesis
    by (simp add: minResult_def maxResult_def math_min_def math_max_def Let_def)
qed

lemma inLimits_returns:
  assumes "inLimits f"
  shows "\<exists>v. evaluateFormula f d = Some (Returns v)"
proof -
  let ?u = "toUpperCase f"
  have pv: "\<exists>vs. parseValues arg d = Some (Returns vs) \<and> int (length vs) \<le> cellLimit f"
    if "aggregateArg f = Some arg" for arg
  proof (rule parseValues_returns)
    assume "CHR '':'' \<in> set (trim arg)"
    with that have "rangeArg f = Some (trim arg)" by (simp add: rangeArg_def)
    with assms show "withinLimits (cellLimit f) (trim arg)" by (simp add: inLimits_def)
  qed (use cellLimit_bounds[of f] in simp_all)
  show ?thesis
  proof (cases "match_call ''SUM'' ?u")
    case (Some arg)
    then have "aggregateArg f = Some arg" by (simp add: aggregateArg_def Let_def)
    from pv[OF this] obtain vs where "parseValues arg d = Some (Returns vs)" by blast
    with Some show ?thesis by (simp add: evaluateFormula_def Let_def)
  next
    case n1: None
    show ?thesis
    proof (cases "match_call ''AVERAGE'' ?u")
      case (Some arg)
      with n1 have "aggregateArg f = Some arg" by (simp add: aggregateArg_def Let_def)
      from pv[OF this] obtain vs where "parseValues arg d = Some (Returns vs)" by blast
      with n1 Some show ?thesis by (simp add: evaluateFormula_def Let_def)
    next
      case n2: None
      show ?thesis
      proof (cases "match_call ''COUNT'' ?u")
        case (Some arg)
        with n1 n2 have "aggregateArg f = Some arg" by (simp add: aggregateArg_def Let_def)
        from pv[OF this] obtain vs where "parseValues arg d = Some (Returns vs)" by blast
        with n1 n2 Some show ?thesis by (simp add: evaluateFormula_def Let_def)
      next
        case n3: None
        show ?thesis
        proof (cases "match_call ''MIN'' ?u")
          case (Some arg)
          with n1 n2 n3 have "aggregateArg f = Some arg" by (simp add: aggregateArg_def Let_def)
          from pv[OF this] obtain vs where vs: "parseValues arg d = Some (Returns vs)"
            and len: "int (length vs) \<le> cellLimit f" by blast
          from Some have "cellLimit f = argumentLimit" by (simp add: cellLimit_def Let_def)
          with len spread_returns[of vs] obtain v where "minResult vs = Returns v" by auto
          with n1 n2 n3 Some vs show ?thesis by (simp add: evaluateFormula_def Let_def)
        next
          case n4: None
          show ?thesis
          proof (cases "match_call ''MAX'' ?u")
            case (Some arg)
            with n1 n2 n3 n4 have "aggregateArg f = Some arg" by (simp add: aggregateArg_def Let_def)
            from pv[OF this] obtain vs where vs: "parseValues arg d = Some (Returns vs)"
              and len: "int (length vs) \<le> cellLimit f" by blast
            from n4 Some have "cellLimit f = argumentLimit" by (simp add: cellLimit_def Let_def)
            with len spread_returns[of vs] obtain v where "maxResult vs = Returns v" by auto
            with n1 n2 n3 n4 Some vs show ?thesis by (simp add: evaluateFormula_def Let_def)
          next
            case n5: None
            with n1 n2 n3 n4 show ?thesis
              by (simp add: evaluateFormula_def Let_def split: option.splits)
          qed
        qed
      qed
    qed
  qed
qed

section \<open>The coercion leaves no NaN\<close>

text \<open>
  \<^verbatim>\<open>parseValues\<close> coerces every value with \<^verbatim>\<open>|| 0\<close>, so the filters \<^verbatim>\<open>!isNaN\<close> of COUNT, MIN
  and MAX keep every value.
\<close>

lemma coerce_notNaN: "notNaN (coerce v)"
  by (simp add: coerce_def or_zero_def notNaN_def split: jsnum.splits)

lemma parseValues_notNaN:
  assumes "parseValues arg d = Some (Returns vs)"
  shows "filter notNaN vs = vs"
proof -
  from assms obtain cells where "vs = map coerce cells"
  proof (cases "CHR '':'' \<in> set (trim arg)")
    case True
    with assms obtain z where "map_outcome (map coerce) z = Returns vs"
      by (auto simp: parseValues_def Let_def)
    then obtain cells where "vs = map coerce cells" by (cases z) auto
    then show ?thesis by (rule that)
  next
    case False
    with assms have "vs = map coerce [evaluateValue (trim arg) d]"
      by (auto simp: parseValues_def Let_def)
    then show ?thesis by (rule that)
  qed
  then show ?thesis by (simp add: coerce_notNaN)
qed

section \<open>The sum of the values\<close>

text \<open>
  A double that \<^verbatim>\<open>parseFloat\<close> yields is in lowest terms, so its only zero is \<open>Fin 0 0\<close>
  and the coercion \<^verbatim>\<open>|| 0\<close> changes nothing but \<open>NaN\<close>. The \<^verbatim>\<open>reduce\<close> of SUM is the sum
  the claims speak of, and on integers that stay below \<open>2 ^ 53\<close> it is exact.
\<close>

lemma norm_dyadic_nf: "norm_dyadic m j = Fin m' j' \<Longrightarrow> j' = 0 \<or> odd m'"
  by (induction m j rule: norm_dyadic.induct) (auto split: if_splits)

lemma round_dyadic_nf: "round_dyadic m j = Fin m' j' \<Longrightarrow> j' = 0 \<or> odd m'"
  by (auto simp: round_dyadic_def Let_def split: if_splits dest: norm_dyadic_nf)

lemma round_decimal_nf: "round_decimal n e = Fin m' j' \<Longrightarrow> j' = 0 \<or> odd m'"
  by (auto simp: round_decimal_def round_ratio_def Let_def split: if_splits dest: round_dyadic_nf)

lemma parseUnsigned_nf: "parseUnsigned sg s = Fin m' j' \<Longrightarrow> j' = 0 \<or> odd m'"
  by (auto simp: parseUnsigned_def Let_def split: if_splits dest: round_decimal_nf)

lemma parseFloat_nf: "parseFloat v = Fin m' j' \<Longrightarrow> j' = 0 \<or> odd m'"
  by (auto simp: parseFloat_def split: list.splits if_splits dest: parseUnsigned_nf)

lemma coerce_numberOf: "coerce v = numberOf v"
proof (cases "parseFloat v")
  case (Fin m j)
  from parseFloat_nf[OF this] have "m = 0 \<longrightarrow> j = 0" by auto
  with Fin show ?thesis by (auto simp: coerce_def numberOf_def or_zero_def)
qed (simp_all add: coerce_def numberOf_def or_zero_def)

lemma foldl_addedUp: "foldl (\<lambda>sum v. num_add sum v) acc xs = addedUp acc xs"
  by (induction xs arbitrary: acc) simp_all

lemma sumOf_totalOf: "sumOf (map coerce vs) = totalOf vs"
proof -
  have "coerce = numberOf" by (rule ext) (rule coerce_numberOf)
  then show ?thesis by (simp add: sumOf_def totalOf_def foldl_addedUp)
qed

lemma addedUp_ints:
  "\<bar>a\<bar> + sum_list (map abs ns) < 2 ^ 53 \<Longrightarrow>
     addedUp (Fin a 0) (map (\<lambda>n. Fin n 0) ns) = Fin (a + sum_list ns) 0"
proof (induction ns arbitrary: a)
  case Nil
  then show ?case by simp
next
  case (Cons n ns)
  have nn: "0 \<le> sum_list (map abs ns)" by (rule sum_list_nonneg) auto
  from Cons.prems nn have "\<bar>a + n\<bar> < 2 ^ 53" by simp
  then have step: "num_add (Fin a 0) (Fin n 0) = Fin (a + n) 0" by (rule num_add_int)
  from Cons.prems have "\<bar>a + n\<bar> + sum_list (map abs ns) < 2 ^ 53" by simp
  from Cons.IH[OF this] step show ?case by (simp add: algebra_simps del: num_add.simps)
qed

lemma totalOf_ints:
  assumes "map numberOf vs = map (\<lambda>n. Fin n 0) ns" and "sum_list (map abs ns) < 2 ^ 53"
  shows "totalOf vs = Fin (sum_list ns) 0"
  using addedUp_ints[of 0 ns] assms by (simp add: totalOf_def)

section \<open>The recalculation pass\<close>

text \<open>
  The pass changes the \<open>val\<close> of cells and nothing else; a cell whose key it does not
  visit keeps its contents; and a formula cell that no later key shares gets its value
  from the store as the pass found it on reaching that key.
\<close>

lemma recalc_append:
  "recalc h nd (xs @ ys) =
     (case recalc h nd xs of None \<Rightarrow> None | Some (Throws e) \<Rightarrow> Some (Throws e)
      | Some (Returns h1) \<Rightarrow> recalc h1 nd ys)"
proof (induction xs arbitrary: h)
  case Nil
  then show ?case by simp
next
  case (Cons k ks)
  show ?case
    by (simp add: Cons.IH split: option.splits outcome.splits)
qed

lemma recalc_keeps:
  "recalc h nd keys = Some (Returns h') \<Longrightarrow>
     length h' = length h \<and> (\<forall>b. formula (h' ! b) = formula (h ! b))
     \<and> (\<forall>b. (\<forall>k \<in> set keys. map_of nd k \<noteq> Some b) \<longrightarrow> h' ! b = h ! b)"
proof (induction keys arbitrary: h)
  case Nil
  then show ?case by simp
next
  case (Cons k ks)
  from Cons.prems obtain a where a: "map_of nd k = Some a"
    by (auto split: option.splits)
  show ?case
  proof (cases "formula (h ! a)")
    case None
    with Cons.prems a have "recalc h nd ks = Some (Returns h')" by simp
    from Cons.IH[OF this] show ?thesis by auto
  next
    case (Some f)
    show ?thesis
    proof (cases "f = []")
      case True
      with Cons.prems a Some have "recalc h nd ks = Some (Returns h')" by simp
      from Cons.IH[OF this] show ?thesis by auto
    next
      case False
      with Cons.prems a Some obtain v where
        v: "evaluateFormula (drop 1 f) (sheetOf h nd) = Some (Returns v)"
        and r: "recalc (h[a := (h ! a)\<lparr>val := v\<rparr>]) nd ks = Some (Returns h')"
        by (auto split: option.splits outcome.splits)
      have upd: "formula ((h[a := (h ! a)\<lparr>val := v\<rparr>]) ! b) = formula (h ! b)" for b
        by (cases "a < length h") (auto simp: nth_list_update list_update_beyond)
      from Cons.IH[OF r] upd a show ?thesis
        by (auto simp: nth_list_update)
    qed
  qed
qed

lemma recalc_plain:
  "recalc h nd keys = Some (Returns h') \<Longrightarrow> formula (h ! b) = None \<Longrightarrow> h' ! b = h ! b"
proof (induction keys arbitrary: h)
  case Nil
  then show ?case by simp
next
  case (Cons k ks)
  from Cons.prems obtain a where a: "map_of nd k = Some a"
    by (auto split: option.splits)
  show ?case
  proof (cases "formula (h ! a)")
    case None
    with Cons.prems a have "recalc h nd ks = Some (Returns h')" by simp
    from Cons.IH[OF this Cons.prems(2)] show ?thesis .
  next
    case (Some f)
    show ?thesis
    proof (cases "f = []")
      case True
      with Cons.prems a Some have "recalc h nd ks = Some (Returns h')" by simp
      from Cons.IH[OF this Cons.prems(2)] show ?thesis .
    next
      case False
      with Cons.prems a Some obtain v where
        r: "recalc (h[a := (h ! a)\<lparr>val := v\<rparr>]) nd ks = Some (Returns h')"
        by (auto split: option.splits outcome.splits)
      from Some Cons.prems(2) have ne: "a \<noteq> b" by auto
      then have same: "(h[a := (h ! a)\<lparr>val := v\<rparr>]) ! b = h ! b" by simp
      with Cons.prems(2) have "formula ((h[a := (h ! a)\<lparr>val := v\<rparr>]) ! b) = None" by simp
      from Cons.IH[OF r this] same show ?thesis by simp
    qed
  qed
qed

lemma recalc_one:
  assumes "map_of nd key = Some a" "a < length h" "formula (h ! a) = Some f" "f \<noteq> []"
    and "recalc h nd (key # post) = Some (Returns h')"
    and "\<forall>k \<in> set post. map_of nd k \<noteq> Some a"
  shows "evaluateFormula (drop 1 f) (sheetOf h nd) = Some (Returns (val (h' ! a)))"
proof -
  from assms obtain v where
    v: "evaluateFormula (drop 1 f) (sheetOf h nd) = Some (Returns v)"
    and r: "recalc (h[a := (h ! a)\<lparr>val := v\<rparr>]) nd post = Some (Returns h')"
    by (auto split: option.splits outcome.splits)
  from recalc_keeps[OF r] assms(6) have "h' ! a = (h[a := (h ! a)\<lparr>val := v\<rparr>]) ! a" by blast
  with assms(2) v show ?thesis by simp
qed

lemma recalc_in_order:
  assumes "recalc h nd (pre @ key # post) = Some (Returns h')"
    and "map_of nd key = Some a" "a < length h" "formula (h ! a) = Some f" "f \<noteq> []"
    and "\<forall>k \<in> set post. map_of nd k \<noteq> Some a"
  shows "\<exists>h1. recalc h nd pre = Some (Returns h1)
           \<and> evaluateFormula (drop 1 f) (sheetOf h1 nd) = Some (Returns (val (h' ! a)))"
proof -
  from assms(1) obtain h1 where h1: "recalc h nd pre = Some (Returns h1)"
    and r: "recalc h1 nd (key # post) = Some (Returns h')"
    by (auto simp: recalc_append split: option.splits outcome.splits)
  from recalc_keeps[OF h1] assms have "a < length h1" "formula (h1 ! a) = Some f" by auto
  from recalc_one[OF assms(2) this assms(5) r assms(6)] h1 show ?thesis by blast
qed


lemma assign_map_unfold:
  "map (\<lambda>(k', b). if k' = k then (k', a) else (k', b)) cs =
   map (\<lambda>p. if fst p = k then (fst p, a) else p) cs"
  by (rule map_cong) auto

lemma assign_keys:
  "map fst (assign cs k a) = (if map_of cs k = None then map fst cs @ [k] else map fst cs)"
  by (induction cs) (auto simp: assign_def)

lemma assign_same: "map_of (assign cs k a) k = Some a"
proof (cases "map_of cs k")
  case None
  then show ?thesis by (simp add: assign_def map_add_def)
next
  case (Some b)
  then have "map_of (map (\<lambda>(k', b). if k' = k then (k', a) else (k', b)) cs) k = Some a"
    by (induction cs) (auto split: if_splits)
  with Some show ?thesis by (simp add: assign_def)
qed

lemma assign_other: "k' \<noteq> k \<Longrightarrow> map_of (assign cs k a) k' = map_of cs k'"
proof -
  assume ne: "k' \<noteq> k"
  have "map_of (map (\<lambda>(k', b). if k' = k then (k', a) else (k', b)) cs) k' = map_of cs k'"
    using ne by (induction cs) auto
  moreover have "map_of (cs @ [(k, a)]) k' = map_of cs k'"
    using ne by (simp add: map_add_def split: option.splits)
  ultimately show ?thesis by (simp add: assign_def)
qed

lemma assign_addrs:
  "set (map snd (assign cs k a)) \<subseteq> insert a (set (map snd cs))"
  by (auto simp: assign_def split: if_splits)

lemma assign_distinct_addrs:
  assumes "distinct (map fst cs)" "distinct (map snd cs)" "a \<notin> set (map snd cs)"
  shows "distinct (map snd (assign cs k a))"
proof (cases "map_of cs k")
  case None
  with assms show ?thesis by (simp add: assign_def)
next
  case (Some b0)
  have "distinct (map snd (map (\<lambda>(k', b). if k' = k then (k', a) else (k', b)) cs))"
    using assms
  proof (induction cs)
    case Nil
    then show ?case by simp
  next
    case (Cons p ps)
    obtain k0 b0 where p: "p = (k0, b0)" by (cases p)
    from Cons.prems have ih: "distinct (map snd (map (\<lambda>(k', b). if k' = k then (k', a) else (k', b)) ps))"
      by (intro Cons.IH) auto
    show ?case
    proof (cases "k0 = k")
      case True
      with Cons.prems p have "k \<notin> fst ` set ps" by auto
      then have same: "map (\<lambda>(k', b). if k' = k then (k', a) else (k', b)) ps = ps"
        by (intro map_idI) (auto simp: image_iff)
      from p True same
      have eq: "map snd (map (\<lambda>(k', b). if k' = k then (k', a) else (k', b)) (p # ps)) = a # map snd ps"
        by simp
      from Cons.prems have "distinct (a # map snd ps)" by auto
      then show ?thesis by (simp only: eq)
    next
      case False
      have "set (map snd (map (\<lambda>(k', b). if k' = k then (k', a) else (k', b)) ps)) \<subseteq> insert a (set (map snd ps))"
        by force
      with Cons.prems p False ih show ?thesis by (fastforce simp: image_iff)
    qed
  qed
  with Some show ?thesis by (simp add: assign_def)
qed

lemma assign_wf:
  assumes "wfCells h cs"
  shows "wfCells (h @ [c]) (assign cs k (length h))"
proof -
  from assms have d1: "distinct (map fst cs)" and d2: "distinct (map snd cs)"
    and b: "\<forall>a \<in> set (map snd cs). a < length h"
    by (auto simp: wfCells_def list_all_iff)
  from b have fresh: "length h \<notin> set (map snd cs)" by auto
  have k: "distinct (map fst (assign cs k (length h)))"
    using d1 by (auto simp: assign_keys map_of_eq_None_iff)
  have a: "distinct (map snd (assign cs k (length h)))"
    using d1 d2 fresh by (rule assign_distinct_addrs)
  have "\<forall>a \<in> set (map snd (assign cs k (length h))). a < length (h @ [c])"
    using assign_addrs[of cs k "length h"] b by fastforce
  with k a show ?thesis by (simp add: wfCells_def list_all_iff)
qed

lemma wf_lookup_inj:
  assumes "wfCells h cs" "map_of cs k = Some a" "map_of cs k' = Some a"
  shows "k = k'"
proof -
  from assms have "(k, a) \<in> set cs" "(k', a) \<in> set cs" by (auto dest: map_of_SomeD)
  moreover from assms have "inj_on snd (set cs)" by (auto simp: wfCells_def distinct_map)
  ultimately show ?thesis using inj_onD[of snd "set cs" "(k, a)" "(k', a)"] by simp
qed

lemma wf_lookup_bound:
  assumes "wfCells h cs" "map_of cs k = Some a"
  shows "a < length h"
  using assms by (auto simp: wfCells_def list_all_iff dest!: map_of_SomeD)



lemma handleCellBlur_unfold:
  assumes "handleCellBlur s = Some (Returns s')" "\<not> isViewOnly s"
  shows "\<exists>cell. newCell (editValue s) (heap s) (data s) = Some (Returns cell)
           \<and> recalc (heap s @ [cell]) (assign (data s) (selectedCell s) (length (heap s)))
                (map fst (assign (data s) (selectedCell s) (length (heap s)))) = Some (Returns (heap s'))
           \<and> data s' = assign (data s) (selectedCell s) (length (heap s))
           \<and> history s' = take (nat (historyIndex s + 1)) (history s) @ [data s']
           \<and> historyIndex s' = int (length (history s')) - 1"
  using assms
  by (auto simp: handleCellBlur_def addToHistory_def Let_def split: option.splits outcome.splits)

lemma newCell_formula:
  "newCell text h nd = Some (Returns cell) \<Longrightarrow>
     formula cell = (if take 1 text = ''='' then Some text else None)"
proof (cases "take 1 text = ''=''")
  case True
  assume "newCell text h nd = Some (Returns cell)"
  with True obtain z where "map_outcome (\<lambda>v. \<lparr>val = v, formula = Some text\<rparr>) z = Returns cell"
    by (auto simp: newCell_def)
  with True show ?thesis by (cases z) auto
next
  case False
  assume "newCell text h nd = Some (Returns cell)"
  with False show ?thesis by (auto simp: newCell_def)
qed


lemma formulasInLimits_update:
  "formulasInLimits h \<Longrightarrow> a < length h \<Longrightarrow> formulasInLimits (h[a := (h ! a)\<lparr>val := v\<rparr>])"
  by (auto simp: formulasInLimits_def list_all_length nth_list_update)

lemma recalc_returns:
  assumes "formulasInLimits h" "\<forall>k \<in> set keys. \<exists>a. map_of nd k = Some a \<and> a < length h"
  shows "\<exists>h'. recalc h nd keys = Some (Returns h')"
  using assms
proof (induction keys arbitrary: h)
  case Nil
  then show ?case by simp
next
  case (Cons k ks)
  from Cons.prems obtain a where a: "map_of nd k = Some a" "a < length h" by auto
  show ?case
  proof (cases "formula (h ! a)")
    case None
    with a Cons show ?thesis by simp
  next
    case (Some f)
    show ?thesis
    proof (cases "f = []")
      case True
      with a Some Cons show ?thesis by simp
    next
      case False
      from Cons.prems(1) a Some have "inLimits (drop 1 f)"
        by (auto simp: formulasInLimits_def list_all_length split: option.splits)
      then obtain v where v: "evaluateFormula (drop 1 f) (sheetOf h nd) = Some (Returns v)"
        using inLimits_returns by blast
      have "\<exists>h'. recalc (h[a := (h ! a)\<lparr>val := v\<rparr>]) nd ks = Some (Returns h')"
        by (rule Cons.IH) (use Cons.prems a in \<open>auto intro: formulasInLimits_update\<close>)
      with a Some False v show ?thesis by simp
    qed
  qed
qed

lemma handleCellBlur_returns:
  assumes "\<not> isViewOnly s" and "wfCells (heap s) (data s)"
    and "formulasInLimits (heap s)"
    and "if take 1 (editValue s) = ''='' then inLimits (drop 1 (editValue s)) else True"
  shows "\<exists>s' cell. handleCellBlur s = Some (Returns s')
           \<and> newCell (editValue s) (heap s) (data s) = Some (Returns cell)"
proof -
  let ?a = "length (heap s)"
  let ?nd = "assign (data s) (selectedCell s) ?a"
  have "\<exists>cell. newCell (editValue s) (heap s) (data s) = Some (Returns cell)"
  proof (cases "take 1 (editValue s) = ''=''")
    case True
    with assms(4) have "inLimits (drop 1 (editValue s))" by simp
    from inLimits_returns[OF this] obtain v where
      "evaluateFormula (drop 1 (editValue s)) (sheetOf (heap s) (data s)) = Some (Returns v)"
      by blast
    then show ?thesis by (simp add: newCell_def)
  next
    case False
    then show ?thesis by (simp add: newCell_def)
  qed
  then obtain cell where cell: "newCell (editValue s) (heap s) (data s) = Some (Returns cell)"
    by blast
  have wf: "wfCells (heap s @ [cell]) ?nd" using assms(2) by (rule assign_wf)
  have lim: "formulasInLimits (heap s @ [cell])"
    using assms(3,4) newCell_formula[OF cell]
    by (auto simp: formulasInLimits_def split: if_splits)
  have "\<forall>k \<in> set (map fst ?nd). \<exists>a. map_of ?nd k = Some a \<and> a < length (heap s @ [cell])"
  proof
    fix k assume "k \<in> set (map fst ?nd)"
    then obtain a where "map_of ?nd k = Some a"
      by (metis map_of_eq_None_iff not_Some_eq set_map)
    with wf_lookup_bound[OF wf this] show "\<exists>a. map_of ?nd k = Some a \<and> a < length (heap s @ [cell])"
      by blast
  qed
  with lim obtain h' where h': "recalc (heap s @ [cell]) ?nd (map fst ?nd) = Some (Returns h')"
    using recalc_returns by blast
  with cell assms(1) show ?thesis by (simp add: handleCellBlur_def Let_def)
qed

lemma pass_sheet_mixed:
  assumes wf: "wfCells h nd" and keys: "map fst nd = pre @ key # post"
    and r: "recalc h nd (map fst nd) = Some (Returns h')"
    and look: "map_of nd key = Some a" and f: "formula (h' ! a) = Some f" "f \<noteq> []"
  shows "evaluateFormula (drop 1 f)
           (\<lambda>k. if k \<in> set pre then sheetOf h' nd k else sheetOf h nd k) = Some (Returns (val (h' ! a)))"
proof -
  from wf keys have dk: "distinct (pre @ key # post)" by (simp add: wfCells_def)
  have a_lt: "a < length h" using wf look by (rule wf_lookup_bound)
  from recalc_keeps[OF r] f have f0: "formula (h ! a) = Some f" by simp
  have post: "\<forall>k \<in> set post. map_of nd k \<noteq> Some a"
  proof
    fix k assume k: "k \<in> set post"
    show "map_of nd k \<noteq> Some a"
    proof
      assume "map_of nd k = Some a"
      with wf look have "key = k" by (rule wf_lookup_inj)
      with k dk show False by simp
    qed
  qed
  from r keys have r': "recalc h nd (pre @ key # post) = Some (Returns h')" by simp
  from recalc_in_order[OF r' look a_lt f0 f(2) post] obtain h1
    where h1: "recalc h nd pre = Some (Returns h1)"
      and ev: "evaluateFormula (drop 1 f) (sheetOf h1 nd) = Some (Returns (val (h' ! a)))"
    by blast
  from r' h1 have r2: "recalc h1 nd (key # post) = Some (Returns h')"
    by (simp add: recalc_append)
  have "sheetOf h1 nd = (\<lambda>k. if k \<in> set pre then sheetOf h' nd k else sheetOf h nd k)"
  proof
    fix k
    show "sheetOf h1 nd k = (if k \<in> set pre then sheetOf h' nd k else sheetOf h nd k)"
    proof (cases "map_of nd k")
      case None
      then show ?thesis by (simp add: sheetOf_def)
    next
      case (Some b)
      show ?thesis
      proof (cases "k \<in> set pre")
        case True
        have "\<forall>k' \<in> set (key # post). map_of nd k' \<noteq> Some b"
        proof
          fix k' assume k': "k' \<in> set (key # post)"
          show "map_of nd k' \<noteq> Some b"
          proof
            assume "map_of nd k' = Some b"
            with wf Some have "k = k'" by (rule wf_lookup_inj)
            with k' True dk show False by auto
          qed
        qed
        with recalc_keeps[OF r2] have "h' ! b = h1 ! b" by blast
        with Some True show ?thesis by (simp add: sheetOf_def)
      next
        case False
        have "\<forall>k' \<in> set pre. map_of nd k' \<noteq> Some b"
        proof
          fix k' assume k': "k' \<in> set pre"
          show "map_of nd k' \<noteq> Some b"
          proof
            assume "map_of nd k' = Some b"
            with wf Some have "k = k'" by (rule wf_lookup_inj)
            with k' False show False by simp
          qed
        qed
        with recalc_keeps[OF h1] have "h1 ! b = h ! b" by blast
        with Some False show ?thesis by (simp add: sheetOf_def)
      qed
    qed
  qed
  with ev show ?thesis by simp
qed

subsection \<open>The states the handlers reach are well formed\<close>

lemma wfCells_grow: "wfCells h cs \<Longrightarrow> length h \<le> length h' \<Longrightarrow> wfCells h' cs"
  by (auto simp: wfCells_def list_all_iff)

lemma initial_wf: "wfState initial"
  by (simp add: wfState_def initial_def wfCells_def)

lemma handleCellBlur_wf:
  assumes "wfState s" "handleCellBlur s = Some (Returns s')"
  shows "wfState s'"
proof (cases "isViewOnly s")
  case True
  with assms show ?thesis by (simp add: handleCellBlur_def)
next
  case False
  from handleCellBlur_unfold[OF assms(2) False] obtain cell where
    r: "recalc (heap s @ [cell]) (data s') (map fst (data s')) = Some (Returns (heap s'))"
    and nd: "data s' = assign (data s) (selectedCell s) (length (heap s))"
    and hist: "history s' = take (nat (historyIndex s + 1)) (history s) @ [data s']"
              "historyIndex s' = int (length (history s')) - 1"
    by auto
  from recalc_keeps[OF r] have len: "length (heap s) \<le> length (heap s')"
    and len': "length (heap s @ [cell]) \<le> length (heap s')" by simp_all
  from assms(1) have "wfCells (heap s) (data s)" by (simp add: wfState_def)
  then have "wfCells (heap s @ [cell]) (assign (data s) (selectedCell s) (length (heap s)))"
    by (rule assign_wf)
  then have d: "wfCells (heap s') (data s')" unfolding nd using len' by (rule wfCells_grow)
  have "wfCells (heap s') e" if "e \<in> set (take (nat (historyIndex s + 1)) (history s))" for e
  proof -
    from that have "e \<in> set (history s)" by (rule in_set_takeD)
    with assms(1) have "wfCells (heap s) e" by (simp add: wfState_def list_all_iff)
    then show ?thesis using len by (rule wfCells_grow)
  qed
  then have "list_all (wfCells (heap s')) (take (nat (historyIndex s + 1)) (history s))"
    by (simp add: list_all_iff)
  with d hist show ?thesis by (simp add: wfState_def)
qed

lemma undo_wf: "wfState s \<Longrightarrow> wfState (undo s)"
  by (auto simp: wfState_def undo_def list_all_length)

lemma redo_wf: "wfState s \<Longrightarrow> wfState (redo s)"
  by (auto simp: wfState_def redo_def list_all_length)


subsection \<open>The example states are reached by the handlers\<close>

lemma chainTyped_reached:
  "andThen (andThen (commitEdit ''A1'' ''=SUM(B1)'' initial) (commitEdit ''B1'' ''=SUM(C1)''))
     (\<lambda>s. Some (Returns (handleCellChange ''5'' (handleCellClick ''C1'' s)))) = Some (Returns chainTyped)"
  by code_simp

lemma twoCellsTyped_reached:
  "andThen twoCells (\<lambda>s. Some (Returns (handleCellChange ''=COUNT(B1)'' (handleCellClick ''A1'' s))))
     = Some (Returns (twoCellsTyped ''=COUNT(B1)''))"
  "andThen twoCells (\<lambda>s. Some (Returns (handleCellChange ''=SUM('' (handleCellClick ''A1'' s))))
     = Some (Returns (twoCellsTyped ''=SUM(''))"
  by code_simp+

subsection \<open>The history cursor\<close>

lemma addToHistory_prunes:
  "history (addToHistory newData s) = take (nat (historyIndex s + 1)) (history s) @ [newData]
   \<and> historyIndex (addToHistory newData s) = int (length (history (addToHistory newData s))) - 1"
  by (simp add: addToHistory_def Let_def)

lemma undo_at_first_entry: "historyIndex s \<le> 0 \<Longrightarrow> undo s = s"
  by (simp add: undo_def)

lemma redo_at_last_entry: "int (length (history s)) - 1 \<le> historyIndex s \<Longrightarrow> redo s = s"
  by (simp add: redo_def)

lemma redo_undo_cursor:
  "0 < historyIndex s \<Longrightarrow> historyIndex s < int (length (history s)) \<Longrightarrow>
     data (redo (undo s)) = history s ! nat (historyIndex s) \<and> historyIndex (redo (undo s)) = historyIndex s"
  by (simp add: undo_def redo_def)

section \<open>COUNT\<close>

text \<open>
  C3. The claim: COUNT returns the number of operand cells whose value is a valid number,
  non-numeric and empty cells excluded, so that \<^verbatim>\<open>COUNT(A1:A3)\<close> with A1 = 1, A2 = "x",
  A3 = 3 is 2. The code filters with \<^verbatim>\<open>!isNaN(val)\<close>, but \<^verbatim>\<open>parseValues\<close> has already
  replaced every \<open>NaN\<close> by 0 (\<^verbatim>\<open>parseFloat(val) || 0\<close>), so the filter removes nothing:
  on that sheet the code answers 3.
\<close>

theorem count_keeps_non_numeric_cells:
  "evaluateFormula ''COUNT(A1:A3)'' sheetA = Some (Returns ''3'')"
  by code_simp

section \<open>MIN and MAX\<close>

text \<open>
  C9. The claim: MIN and MAX work on the numeric-valid operand values only, and give 0
  when there is none. The code filters with \<^verbatim>\<open>!isNaN\<close> after \<^verbatim>\<open>parseValues\<close> has turned
  every non-numeric value into 0, so a non-numeric cell takes part as 0: with A1 = "x",
  the minimum of A1 and A2 = 5 comes out as 0 and not 5, and the maximum of A1 and
  A2 = -5 as 0 and not -5.
\<close>

theorem min_max_take_non_numeric_as_zero:
  "evaluateFormula ''MIN(A1:A2)'' sheetMin = Some (Returns ''0'')
   \<and> evaluateFormula ''MAX(A1:A2)'' sheetMax = Some (Returns ''0'')"
  by code_simp

section \<open>IF\<close>

text \<open>
  C4. The claim: IF compares the two operands of its condition as numbers and gives the
  string value of the branch selected, so that \<^verbatim>\<open>IF(A1>5,"big","small")\<close> is "big" for
  A1 = 10 and "small" for A1 = 3. The code selects the right branch, but it takes the
  branch texts from the upper-cased formula: the answers are "BIG" and "SMALL".
\<close>

theorem if_branch_literal_is_upper_cased:
  "evaluateFormula ''IF(A1>5,\"big\",\"small\")'' sheetTen = Some (Returns ''BIG'')
   \<and> evaluateFormula ''IF(A1>5,\"big\",\"small\")'' sheetThree = Some (Returns ''SMALL'')"
  by code_simp

section \<open>Ranges\<close>

text \<open>
  The range "A1:A3" gives the three cells of the sheet, "A3:A1" gives none, and so does
  "A1:B", whose second endpoint has no row: the endpoints are not put in order and a
  reference that does not parse is not an error.
\<close>

theorem parseRange_reversed_or_malformed_is_empty:
  "parseRange ''A1:A3'' sheetA = Some (Returns [''1'', ''x'', ''3''])
   \<and> parseRange ''A3:A1'' sheetA = Some (Returns [])
   \<and> parseRange ''A1:B'' sheetA = Some (Returns [])"
  by code_simp

text \<open>
  C7, as amended. \<^verbatim>\<open>parseRange\<close> splits the text at its colons and takes the first two
  parts as endpoints; the first character of an endpoint is its column and \<^verbatim>\<open>parseInt\<close>
  of the rest is its row. For rows of magnitude below \<open>2 ^ 53\<close> and at most
  \<open>2 ^ 32 - 1\<close> cells, the result is the values of the cells from the first endpoint to
  the second, row by row, each row from the first endpoint's column to the second's. The
  endpoints are not normalised: for rows of that magnitude, when the second endpoint's
  row or column lies before the first's, the result is empty. (For larger rows the row
  counter can stall, and a range with its columns reversed then never returns: see
  \<open>parseRange_hangs\<close>.) There is no \<^verbatim>\<open>MalformedReference\<close>: when the row of an endpoint
  does not parse, the result is empty too.
\<close>

theorem parseRange_first_to_second:
  assumes "split_on CHR '':'' rng = start # end' # rest"
  shows "(start = c1 # ds1 \<and> end' = c2 # ds2 \<and> parseInt ds1 = Fin r1 0 \<and> parseInt ds2 = Fin r2 0
          \<and> - (2 ^ 53) + 1 < r1 \<and> r1 < 2 ^ 53 \<and> - (2 ^ 53) + 1 < r2 \<and> r2 < 2 ^ 53
          \<and> (r2 + 1 - r1) * (if code c1 \<le> code c2 then int (code c2) + 1 - int (code c1) else 0)
               \<le> 4294967295
          \<longrightarrow> parseRange rng d =
                Some (Returns (rangeCells d (r1 - 1) (r2 - 1) (int (code c1) - 65) (int (code c2) - 65))))
       \<and> (start = c1 # ds1 \<and> end' = c2 # ds2 \<and> parseInt ds1 = Fin r1 0 \<and> parseInt ds2 = Fin r2 0
          \<and> - (2 ^ 53) + 1 < r1 \<and> r1 < 2 ^ 53 \<and> - (2 ^ 53) + 1 < r2 \<and> r2 < 2 ^ 53
          \<and> (r2 < r1 \<or> code c2 < code c1)
          \<longrightarrow> parseRange rng d = Some (Returns []))
       \<and> (parseInt (drop 1 start) = NaN \<or> parseInt (drop 1 end') = NaN
          \<longrightarrow> parseRange rng d = Some (Returns []))"
proof (intro conjI impI)
  assume a: "start = c1 # ds1 \<and> end' = c2 # ds2 \<and> parseInt ds1 = Fin r1 0 \<and> parseInt ds2 = Fin r2 0
          \<and> - (2 ^ 53) + 1 < r1 \<and> r1 < 2 ^ 53 \<and> - (2 ^ 53) + 1 < r2 \<and> r2 < 2 ^ 53
          \<and> (r2 + 1 - r1) * (if code c1 \<le> code c2 then int (code c2) + 1 - int (code c1) else 0)
               \<le> 4294967295"
  with assms have "split_on CHR '':'' rng = (c1 # ds1) # (c2 # ds2) # rest" by simp
  then show "parseRange rng d =
      Some (Returns (rangeCells d (r1 - 1) (r2 - 1) (int (code c1) - 65) (int (code c2) - 65)))"
    by (rule parseRange_rect) (use a in simp_all)
next
  assume a: "start = c1 # ds1 \<and> end' = c2 # ds2 \<and> parseInt ds1 = Fin r1 0 \<and> parseInt ds2 = Fin r2 0
          \<and> - (2 ^ 53) + 1 < r1 \<and> r1 < 2 ^ 53 \<and> - (2 ^ 53) + 1 < r2 \<and> r2 < 2 ^ 53
          \<and> (r2 < r1 \<or> code c2 < code c1)"
  let ?w = "if code c1 \<le> code c2 then int (code c2) + 1 - int (code c1) else 0"
  have w: "0 \<le> ?w" by simp
  from a have "r2 + 1 - r1 \<le> 0 \<or> ?w = 0" by auto
  with w have "(r2 + 1 - r1) * ?w \<le> 0" by (auto simp: mult_nonpos_nonneg)
  then have cnt: "(r2 + 1 - r1) * ?w \<le> 4294967295" by linarith
  from a assms have "split_on CHR '':'' rng = (c1 # ds1) # (c2 # ds2) # rest" by simp
  then have "parseRange rng d =
      Some (Returns (rangeCells d (r1 - 1) (r2 - 1) (int (code c1) - 65) (int (code c2) - 65)))"
    by (rule parseRange_rect) (use a cnt in simp_all)
  moreover from a have "rangeCells d (r1 - 1) (r2 - 1) (int (code c1) - 65) (int (code c2) - 65) = []"
    by (auto simp: rangeCells_def)
  ultimately show "parseRange rng d = Some (Returns [])" by simp
next
  assume "parseInt (drop 1 start) = NaN \<or> parseInt (drop 1 end') = NaN"
  with assms show "parseRange rng d = Some (Returns [])" by (rule parseRange_NaN)
qed

theorem parseRange_first_to_second_witness:
  "parseRange ''A1:B3'' sheetA = Some (Returns [''1'', ''0'', ''x'', ''0'', ''3'', ''0''])
   \<and> parseRange ''A3:A1'' sheetA = Some (Returns [])
   \<and> parseRange ''B1:A3'' sheetA = Some (Returns [])
   \<and> parseRange ''A1:B'' sheetA = Some (Returns [])"
proof -
  have sp: "split_on CHR '':'' ''A1:B3'' = ''A1'' # ''B3'' # []" by code_simp
  have p1: "parseInt ''1'' = Fin 1 0" and p3: "parseInt ''3'' = Fin 3 0" by code_simp+
  have cells: "rangeCells sheetA (1 - 1) (3 - 1) (int (code CHR ''A'') - 65) (int (code CHR ''B'') - 65)
                 = [''1'', ''0'', ''x'', ''0'', ''3'', ''0'']"
    by code_simp
  have hyp: "''A1'' = CHR ''A'' # ''1'' \<and> ''B3'' = CHR ''B'' # ''3''
             \<and> parseInt ''1'' = Fin 1 0 \<and> parseInt ''3'' = Fin 3 0
             \<and> - (2 ^ 53) + 1 < (1::int) \<and> (1::int) < 2 ^ 53 \<and> - (2 ^ 53) + 1 < (3::int) \<and> (3::int) < 2 ^ 53
             \<and> (3 + 1 - 1) * (if code CHR ''A'' \<le> code CHR ''B''
                               then int (code CHR ''B'') + 1 - int (code CHR ''A'') else 0) \<le> 4294967295"
    by (simp add: p1 p3 code_def)
  have first: "parseRange ''A1:B3'' sheetA = Some (Returns [''1'', ''0'', ''x'', ''0'', ''3'', ''0''])"
    using parseRange_first_to_second[OF sp, where ?c1.0 = "CHR ''A''" and ?ds1.0 = "''1''" and ?c2.0 = "CHR ''B''"
        and ?ds2.0 = "''3''" and ?r1.0 = 1 and ?r2.0 = 3 and d = sheetA] hyp cells
    by simp
  have sp3: "split_on CHR '':'' ''A3:A1'' = ''A3'' # ''A1'' # []" by code_simp
  have hyp3: "''A3'' = CHR ''A'' # ''3'' \<and> ''A1'' = CHR ''A'' # ''1''
             \<and> parseInt ''3'' = Fin 3 0 \<and> parseInt ''1'' = Fin 1 0
             \<and> - (2 ^ 53) + 1 < (3::int) \<and> (3::int) < 2 ^ 53 \<and> - (2 ^ 53) + 1 < (1::int) \<and> (1::int) < 2 ^ 53
             \<and> ((1::int) < 3 \<or> code CHR ''A'' < code CHR ''A'')"
    by (simp add: p1 p3)
  have second: "parseRange ''A3:A1'' sheetA = Some (Returns [])"
    using parseRange_first_to_second[OF sp3, where ?c1.0 = "CHR ''A''" and ?ds1.0 = "''3''" and ?c2.0 = "CHR ''A''"
        and ?ds2.0 = "''1''" and ?r1.0 = 3 and ?r2.0 = 1 and d = sheetA] hyp3
    by blast
  have sp4: "split_on CHR '':'' ''B1:A3'' = ''B1'' # ''A3'' # []" by code_simp
  have hyp4: "''B1'' = CHR ''B'' # ''1'' \<and> ''A3'' = CHR ''A'' # ''3''
             \<and> parseInt ''1'' = Fin 1 0 \<and> parseInt ''3'' = Fin 3 0
             \<and> - (2 ^ 53) + 1 < (1::int) \<and> (1::int) < 2 ^ 53 \<and> - (2 ^ 53) + 1 < (3::int) \<and> (3::int) < 2 ^ 53
             \<and> ((3::int) < 1 \<or> code CHR ''A'' < code CHR ''B'')"
    by (simp add: p1 p3 code_def)
  have third: "parseRange ''B1:A3'' sheetA = Some (Returns [])"
    using parseRange_first_to_second[OF sp4, where ?c1.0 = "CHR ''B''" and ?ds1.0 = "''1''" and ?c2.0 = "CHR ''A''"
        and ?ds2.0 = "''3''" and ?r1.0 = 1 and ?r2.0 = 3 and d = sheetA] hyp4
    by blast
  have sp2: "split_on CHR '':'' ''A1:B'' = ''A1'' # ''B'' # []" by code_simp
  have nan: "parseInt (drop 1 ''A1'') = NaN \<or> parseInt (drop 1 ''B'') = NaN" by code_simp
  have fourth: "parseRange ''A1:B'' sheetA = Some (Returns [])"
    using parseRange_first_to_second[OF sp2, where d = sheetA] nan
    by blast
  from first second third fourth show ?thesis by simp
qed

section \<open>SUM\<close>

text \<open>
  The argument text is never split at commas: "A1,A3" has no colon and is no cell
  reference, so it is read as a literal, which is no number and counts 0. On the sheet
  A1 = 1, A2 = "x", A3 = 3 the formula \<^verbatim>\<open>SUM(A1,A3)\<close> gives 0 and not 4.
\<close>

theorem sum_does_not_split_operands:
  "evaluateFormula ''SUM(A1,A3)'' sheetA = Some (Returns ''0'')"
  by code_simp

text \<open>
  C8, as amended. SUM takes its whole argument text as one operand: the text is never
  split at commas. A formula text (\<open>upperIsLatin1\<close>) is a SUM formula when its upper-case
  form is \<^verbatim>\<open>SUM(\<close>, an argument that is not empty and has no line end, and \<^verbatim>\<open>)\<close>. The
  argument is trimmed. Without a colon it is one cell reference, whose value is read from
  the sheet ("0" for a cell that is missing or empty), or else one literal, read without
  its quotes; the result is that one value as a number, added to 0. With a colon it is a
  range: for rows of magnitude below \<open>2 ^ 53\<close> and at most \<open>2 ^ 32 - 1\<close> cells, the result
  is the sum of the values of the cells from the first endpoint to the second, each value
  counted as the number it reads as and as 0 when it reads as none, the numbers added to
  0 from the first to the last as doubles. When these numbers are integers whose absolute
  values sum to less than \<open>2 ^ 53\<close>, the result is their exact sum. A range with no cells
  (its second endpoint before its first, or a row that does not parse) sums to "0".
\<close>

theorem sum_of_one_operand:
  assumes "upperIsLatin1 f" and "toUpperCase f = ''SUM('' @ arg @ '')''"
    and "arg \<noteq> []" and "filter isLineEnd arg = []"
  shows "(CHR '':'' \<notin> set (trim arg) \<and> isCellRef (trim arg)
          \<longrightarrow> evaluateFormula f d = Some (Returns (numToString (totalOf [cellText d (trim arg)]))))
       \<and> (CHR '':'' \<notin> set (trim arg) \<and> \<not> isCellRef (trim arg)
          \<longrightarrow> evaluateFormula f d = Some (Returns (numToString
                (totalOf [filter (\<lambda>c. c \<noteq> CHR 0x27 \<and> c \<noteq> CHR 0x22) (trim arg)]))))
       \<and> (rangeEnds (trim arg) = Some (c1, r1, c2, r2)
          \<longrightarrow> evaluateFormula f d = Some (Returns (numToString (totalOf
                (rangeCells d (r1 - 1) (r2 - 1) (int (code c1) - 65) (int (code c2) - 65))))))
       \<and> (rangeEnds (trim arg) = Some (c1, r1, c2, r2)
          \<and> map numberOf (rangeCells d (r1 - 1) (r2 - 1) (int (code c1) - 65) (int (code c2) - 65))
              = map (\<lambda>n. Fin n 0) ns
          \<and> sum_list (map abs ns) < 2 ^ 53
          \<longrightarrow> evaluateFormula f d = Some (Returns (numToString (Fin (sum_list ns) 0))))
       \<and> (rangeEnds (trim arg) = Some (c1, r1, c2, r2) \<and> (r2 < r1 \<or> code c2 < code c1)
          \<longrightarrow> evaluateFormula f d = Some (Returns ''0''))
       \<and> (split_on CHR '':'' (trim arg) = start # end' # rest
          \<and> (parseInt (drop 1 start) = NaN \<or> parseInt (drop 1 end') = NaN)
          \<longrightarrow> evaluateFormula f d = Some (Returns ''0''))"
proof -
  let ?cells = "rangeCells d (r1 - 1) (r2 - 1) (int (code c1) - 65) (int (code c2) - 65)"
  from match_call_intro[OF assms(3,4), of "''SUM''"] assms(2)
  have m: "match_call ''SUM'' (toUpperCase f) = Some arg" by simp
  have single: "evaluateFormula f d = Some (Returns (numToString (totalOf [evaluateValue (trim arg) d])))"
    if "CHR '':'' \<notin> set (trim arg)"
    using m that sumOf_totalOf[of "[evaluateValue (trim arg) d]"]
    by (simp add: evaluateFormula_def parseValues_def Let_def sumResult_def)
  have rng: "evaluateFormula f d = Some (Returns (numToString (totalOf ?cells)))"
    if "rangeEnds (trim arg) = Some (c1, r1, c2, r2)"
    using m rangeEnds_parseRange(1)[OF that, of d] rangeEnds_parseRange(2)[OF that] sumOf_totalOf[of ?cells]
    by (simp add: evaluateFormula_def parseValues_def Let_def sumResult_def)
  show ?thesis
  proof (intro conjI impI)
    assume a: "CHR '':'' \<notin> set (trim arg) \<and> isCellRef (trim arg)"
    then have "evaluateValue (trim arg) d = cellText d (trim arg)"
      by (simp add: evaluateValue_def isCellRef_upper)
    with single a
    show "evaluateFormula f d = Some (Returns (numToString (totalOf [cellText d (trim arg)])))"
      by simp
  next
    assume a: "CHR '':'' \<notin> set (trim arg) \<and> \<not> isCellRef (trim arg)"
    with single
    show "evaluateFormula f d = Some (Returns (numToString
            (totalOf [filter (\<lambda>c. c \<noteq> CHR 0x27 \<and> c \<noteq> CHR 0x22) (trim arg)])))"
      by (simp add: evaluateValue_def)
  next
    assume "rangeEnds (trim arg) = Some (c1, r1, c2, r2)"
    then show "evaluateFormula f d = Some (Returns (numToString (totalOf ?cells)))" by (rule rng)
  next
    assume a: "rangeEnds (trim arg) = Some (c1, r1, c2, r2)
          \<and> map numberOf ?cells = map (\<lambda>n. Fin n 0) ns
          \<and> sum_list (map abs ns) < 2 ^ 53"
    then have "totalOf ?cells = Fin (sum_list ns) 0" by (intro totalOf_ints) simp_all
    with a rng show "evaluateFormula f d = Some (Returns (numToString (Fin (sum_list ns) 0)))"
      by simp
  next
    assume a: "rangeEnds (trim arg) = Some (c1, r1, c2, r2) \<and> (r2 < r1 \<or> code c2 < code c1)"
    then have "?cells = []" by (auto simp: rangeCells_def)
    with a rng show "evaluateFormula f d = Some (Returns ''0'')" by (simp add: totalOf_def)
  next
    assume a: "split_on CHR '':'' (trim arg) = start # end' # rest
          \<and> (parseInt (drop 1 start) = NaN \<or> parseInt (drop 1 end') = NaN)"
    then have colon: "CHR '':'' \<in> set (trim arg)" by (blast dest: split_on_two)
    from a have "parseRange (trim arg) d = Some (Returns [])" by (blast intro: parseRange_NaN)
    with m colon show "evaluateFormula f d = Some (Returns ''0'')"
      by (simp add: evaluateFormula_def parseValues_def Let_def sumResult_def sumOf_def)
  qed
qed

theorem sum_of_one_operand_witness:
  "evaluateFormula ''sum(A1:A3)'' sheetA = Some (Returns ''4'')
   \<and> evaluateFormula ''SUM(A3)'' sheetA = Some (Returns ''3'')
   \<and> evaluateFormula ''SUM(\"7\")'' sheetA = Some (Returns ''7'')
   \<and> evaluateFormula ''SUM(A3:A1)'' sheetA = Some (Returns ''0'')
   \<and> evaluateFormula ''SUM(A1:B)'' sheetA = Some (Returns ''0'')"
proof -
  have u1: "upperIsLatin1 ''sum(A1:A3)''" "toUpperCase ''sum(A1:A3)'' = ''SUM('' @ ''A1:A3'' @ '')''"
    "''A1:A3'' \<noteq> []" "filter isLineEnd ''A1:A3'' = []" by code_simp+
  have u2: "upperIsLatin1 ''SUM(A3)''" "toUpperCase ''SUM(A3)'' = ''SUM('' @ ''A3'' @ '')''"
    "''A3'' \<noteq> []" "filter isLineEnd ''A3'' = []" by code_simp+
  have u3: "upperIsLatin1 ''SUM(\"7\")''" "toUpperCase ''SUM(\"7\")'' = ''SUM('' @ ''\"7\"'' @ '')''"
    "''\"7\"'' \<noteq> []" "filter isLineEnd ''\"7\"'' = []" by code_simp+
  have u4: "upperIsLatin1 ''SUM(A3:A1)''" "toUpperCase ''SUM(A3:A1)'' = ''SUM('' @ ''A3:A1'' @ '')''"
    "''A3:A1'' \<noteq> []" "filter isLineEnd ''A3:A1'' = []" by code_simp+
  have u5: "upperIsLatin1 ''SUM(A1:B)''" "toUpperCase ''SUM(A1:B)'' = ''SUM('' @ ''A1:B'' @ '')''"
    "''A1:B'' \<noteq> []" "filter isLineEnd ''A1:B'' = []" by code_simp+
  have h5: "split_on CHR '':'' (trim ''A1:B'') = ''A1'' # ''B'' # []
            \<and> (parseInt (drop 1 ''A1'') = NaN \<or> parseInt (drop 1 ''B'') = NaN)"
    by code_simp
  have h1: "rangeEnds (trim ''A1:A3'') = Some (CHR ''A'', 1, CHR ''A'', 3)
            \<and> map numberOf (rangeCells sheetA (1 - 1) (3 - 1) (int (code CHR ''A'') - 65) (int (code CHR ''A'') - 65))
                = map (\<lambda>n. Fin n 0) [1, 0, 3]
            \<and> sum_list (map abs [1, 0, 3]) < (2 ^ 53 :: int)"
    by code_simp
  have v1: "numToString (Fin (sum_list [1, 0, 3]) 0) = ''4''" by code_simp
  have h2: "CHR '':'' \<notin> set (trim ''A3'') \<and> isCellRef (trim ''A3'')" by code_simp
  have v2: "numToString (totalOf [cellText sheetA (trim ''A3'')]) = ''3''" by code_simp
  have h3: "CHR '':'' \<notin> set (trim ''\"7\"'') \<and> \<not> isCellRef (trim ''\"7\"'')" by code_simp
  have v3: "numToString (totalOf [filter (\<lambda>c. c \<noteq> CHR 0x27 \<and> c \<noteq> CHR 0x22) (trim ''\"7\"'')]) = ''7''"
    by code_simp
  have h4: "rangeEnds (trim ''A3:A1'') = Some (CHR ''A'', 3, CHR ''A'', 1)
            \<and> ((1::int) < 3 \<or> code CHR ''A'' < code CHR ''A'')"
    by code_simp
  from sum_of_one_operand[OF u1, where ?c1.0 = "CHR ''A''" and ?r1.0 = 1 and ?c2.0 = "CHR ''A''" and ?r2.0 = 3
         and d = sheetA and ns = "[1, 0, 3]"] h1
  have "evaluateFormula ''sum(A1:A3)'' sheetA = Some (Returns (numToString (Fin (sum_list [1, 0, 3]) 0)))"
    by blast
  then have first: "evaluateFormula ''sum(A1:A3)'' sheetA = Some (Returns ''4'')" by (simp only: v1)
  from sum_of_one_operand[OF u2, where d = sheetA] h2
  have "evaluateFormula ''SUM(A3)'' sheetA = Some (Returns (numToString (totalOf [cellText sheetA (trim ''A3'')])))"
    by blast
  then have second: "evaluateFormula ''SUM(A3)'' sheetA = Some (Returns ''3'')" by (simp only: v2)
  from sum_of_one_operand[OF u3, where d = sheetA] h3
  have "evaluateFormula ''SUM(\"7\")'' sheetA = Some (Returns (numToString
          (totalOf [filter (\<lambda>c. c \<noteq> CHR 0x27 \<and> c \<noteq> CHR 0x22) (trim ''\"7\"'')])))"
    by blast
  then have third: "evaluateFormula ''SUM(\"7\")'' sheetA = Some (Returns ''7'')" by (simp only: v3)
  from sum_of_one_operand[OF u4, where ?c1.0 = "CHR ''A''" and ?r1.0 = 3 and ?c2.0 = "CHR ''A''" and ?r2.0 = 1
         and d = sheetA] h4
  have fourth: "evaluateFormula ''SUM(A3:A1)'' sheetA = Some (Returns ''0'')" by blast
  from sum_of_one_operand[OF u5, where d = sheetA and start = "''A1''" and end' = "''B''" and rest = "[]"] h5
  have fifth: "evaluateFormula ''SUM(A1:B)'' sheetA = Some (Returns ''0'')" by blast
  from first second third fourth fifth show ?thesis by simp
qed

section \<open>Termination\<close>

text \<open>
  The formula \<^verbatim>\<open>SUM(B9007199254740992:A9007199254740994)\<close> never returns. Its rows run
  from \<open>2 ^ 53 - 1\<close> to \<open>2 ^ 53\<close> (the double nearest to \<open>2 ^ 53 + 1\<close>), its columns
  from 1 to 0, so no cell is collected, and \<^verbatim>\<open>r++\<close> at \<open>2 ^ 53\<close> gives \<open>2 ^ 53\<close> again.
  The formula \<^verbatim>\<open>MAX(A1:A1000000)\<close> raises a \<^verbatim>\<open>RangeError\<close>: its million numbers are passed
  as the arguments of one call.
\<close>

theorem evaluateFormula_never_returns:
  "evaluateFormula ''SUM(B9007199254740992:A9007199254740994)'' sheetA = None
   \<and> evaluateFormula ''MAX(A1:A1000000)'' sheetA = Some (Throws RangeError)"
proof -
  have m: "match_call ''SUM'' (toUpperCase ''SUM(B9007199254740992:A9007199254740994)'') =
             Some ''B9007199254740992:A9007199254740994''"
    by code_simp
  have t: "trim ''B9007199254740992:A9007199254740994'' = ''B9007199254740992:A9007199254740994''"
    by code_simp
  have hangs: "evaluateFormula ''SUM(B9007199254740992:A9007199254740994)'' sheetA = None"
    by (simp add: evaluateFormula_def parseValues_def m t parseRange_hangs Let_def)
  let ?u = "toUpperCase ''MAX(A1:A1000000)''"
  let ?cells = "rangeCells sheetA (1 - 1) (1000000 - 1) (int (code CHR ''A'') - 65) (int (code CHR ''A'') - 65)"
  have n: "match_call ''SUM'' ?u = None" "match_call ''AVERAGE'' ?u = None"
    "match_call ''COUNT'' ?u = None" "match_call ''MIN'' ?u = None"
    "match_call ''MAX'' ?u = Some ''A1:A1000000''"
    by code_simp+
  have t2: "trim ''A1:A1000000'' = ''A1:A1000000''" by code_simp
  have re: "rangeEnds ''A1:A1000000'' = Some (CHR ''A'', 1, CHR ''A'', 1000000)" by code_simp
  have pv: "parseValues ''A1:A1000000'' sheetA = Some (Returns (map coerce ?cells))"
    using rangeEnds_parseRange(1)[OF re, of sheetA] by (simp add: parseValues_def Let_def t2)
  have len: "int (length (map coerce ?cells)) = 1000000" by (simp add: length_rangeCells)
  then have pos: "0 < length (map coerce ?cells)" by linarith
  have keep: "filter notNaN (map coerce ?cells) = map coerce ?cells"
    using pv by (rule parseValues_notNaN)
  from len have "math_max (map coerce ?cells) = Throws RangeError"
    by (simp only: math_max_def argumentLimit_def) simp
  with pos keep have "maxResult (map coerce ?cells) = Throws RangeError"
    by (simp only: maxResult_def Let_def) simp
  with n pv have "evaluateFormula ''MAX(A1:A1000000)'' sheetA = Some (Throws RangeError)"
    by (simp add: evaluateFormula_def Let_def)
  with hangs show ?thesis by simp
qed

text \<open>
  C10, as amended. Formula evaluation returns a string, without raising, for every
  formula text in limits: a text (\<open>upperIsLatin1\<close>) that hands no range to
  \<^verbatim>\<open>parseRange\<close>, or one whose row loop does not run, or runs over rows that are integers
  of magnitude below \<open>2 ^ 53\<close> and collects at most \<open>2 ^ 32 - 1\<close> cells, and for MIN and
  MAX, which pass the numbers as the arguments of one call, at most \<open>argumentLimit\<close>
  cells. A formula text (\<open>upperIsLatin1\<close>) that matches none of the six patterns
  evaluates to "0".
\<close>

theorem evaluateFormula_returns_within_limits:
  "(inLimits f \<longrightarrow> (\<exists>s. evaluateFormula f d = Some (Returns s)))
   \<and> (upperIsLatin1 f \<and> \<not> recognised f \<longrightarrow> evaluateFormula f d = Some (Returns ''0''))"
  using inLimits_returns[of f d] default_zero[of f d] by blast

theorem evaluateFormula_returns_within_limits_witness:
  "(\<exists>s. evaluateFormula ''SUM(A1:A3)'' sheetA = Some (Returns s))
   \<and> (\<exists>s. evaluateFormula ''MAX(A1:Z2520)'' sheetA = Some (Returns s))
   \<and> (\<exists>s. evaluateFormula ''MIN(7)'' sheetA = Some (Returns s))
   \<and> evaluateFormula ''TOTAL(A1:A3)'' sheetA = Some (Returns ''0'')"
proof -
  have l1: "inLimits ''SUM(A1:A3)''" by code_simp
  have l2: "inLimits ''MAX(A1:Z2520)''" by code_simp
  have l3: "inLimits ''MIN(7)''" by code_simp
  have n4: "upperIsLatin1 ''TOTAL(A1:A3)'' \<and> \<not> recognised ''TOTAL(A1:A3)''" by code_simp
  from evaluateFormula_returns_within_limits[of "''SUM(A1:A3)''" sheetA] l1
    evaluateFormula_returns_within_limits[of "''MAX(A1:Z2520)''" sheetA] l2
    evaluateFormula_returns_within_limits[of "''MIN(7)''" sheetA] l3
    evaluateFormula_returns_within_limits[of "''TOTAL(A1:A3)''" sheetA] n4
  show ?thesis by simp
qed

section \<open>Recalculation order\<close>

text \<open>
  From the first state, A1 is given \<^verbatim>\<open>=SUM(B1)\<close>, B1 is given \<^verbatim>\<open>=SUM(C1)\<close>, and then C1
  is given 5. The pass of the third edit reaches A1 before B1: A1 reads B1's old value
  "0", then B1 becomes "5". When the pass is over, A1 holds "0" although its formula over
  the final sheet gives "5".
\<close>

theorem stale_value_after_pass:
  "chainEdits = Some (Returns chainDone)
   \<and> snapshot (heap chainDone) (data chainDone) =
       [(''A1'', \<lparr>val = ''0'', formula = Some ''=SUM(B1)''\<rparr>),
        (''B1'', \<lparr>val = ''5'', formula = Some ''=SUM(C1)''\<rparr>),
        (''C1'', \<lparr>val = ''5'', formula = None\<rparr>)]
   \<and> evaluateFormula ''SUM(B1)'' (sheetOf (heap chainDone) (data chainDone)) = Some (Returns ''5'')"
  by code_simp

text \<open>
  C1, as amended. The pass that a committed edit triggers recomputes every formula cell
  once, in the key order of the sheet (the order in which the keys were first written),
  whatever the formulas read. A formula cell's stored value after the pass is its formula
  evaluated over the sheet as the pass found it on reaching that cell: the cells before
  it in key order at their final values, the cell itself and the cells after it at
  their values from before the pass (the edited cell at its new one). So F is recomputed
  after P, and holds a value consistent with P's final one, when P's key comes before F's.
\<close>

theorem recalculation_in_key_order:
  assumes "handleCellBlur s = Some (Returns s')" and "\<not> isViewOnly s"
    and "wfCells (heap s) (data s)"
    and "newCell (editValue s) (heap s) (data s) = Some (Returns cell)"
    and "map fst (data s') = pre @ key # post"
    and "sheetOf (heap s') (data s') key = Some c" and "formula c = Some f" and "f \<noteq> []"
  shows "evaluateFormula (drop 1 f)
           (\<lambda>k. if k \<in> set pre then sheetOf (heap s') (data s') k
                else sheetOf (heap s @ [cell]) (data s') k) = Some (Returns (val c))"
proof -
  from handleCellBlur_unfold[OF assms(1,2)] assms(4)
  have r: "recalc (heap s @ [cell]) (data s') (map fst (data s')) = Some (Returns (heap s'))"
    and nd: "data s' = assign (data s) (selectedCell s) (length (heap s))"
    by auto
  have wf: "wfCells (heap s @ [cell]) (data s')" unfolding nd using assms(3) by (rule assign_wf)
  from assms(6) obtain a where a: "map_of (data s') key = Some a" and c: "c = heap s' ! a"
    by (auto simp: sheetOf_def split: option.splits)
  from pass_sheet_mixed[OF wf assms(5) r a] assms(7,8) c show ?thesis by simp
qed


theorem recalculation_in_key_order_witness:
  "evaluateFormula ''SUM(B1)''
     (\<lambda>k. if k \<in> set [] then sheetOf (heap chainDone) (data chainDone) k
          else sheetOf (heap chainTyped @ [\<lparr>val = ''5'', formula = None\<rparr>]) (data chainDone) k)
     = Some (Returns ''0'')"
proof -
  have h1: "handleCellBlur chainTyped = Some (Returns chainDone)" by code_simp
  have h2: "\<not> isViewOnly chainTyped" by code_simp
  have h3: "wfCells (heap chainTyped) (data chainTyped)" by code_simp
  have h4: "newCell (editValue chainTyped) (heap chainTyped) (data chainTyped) =
              Some (Returns \<lparr>val = ''5'', formula = None\<rparr>)"
    by code_simp
  have h5: "map fst (data chainDone) = [] @ ''A1'' # [''B1'', ''C1'']" by code_simp
  have h6: "sheetOf (heap chainDone) (data chainDone) ''A1'' =
              Some \<lparr>val = ''0'', formula = Some ''=SUM(B1)''\<rparr>"
    by code_simp
  have h7: "formula \<lparr>val = ''0'', formula = Some ''=SUM(B1)''\<rparr> = Some ''=SUM(B1)''" by simp
  have h8: "''=SUM(B1)'' \<noteq> []" by simp
  from recalculation_in_key_order[OF h1 h2 h3 h4 h5 h6 h7 h8] show ?thesis by simp
qed

section \<open>Cycles\<close>

text \<open>
  With A1 = 5 and B1 = \<^verbatim>\<open>=SUM(A1)\<close>, both showing "5", A1 is given \<^verbatim>\<open>=COUNT(B1)\<close>, which
  closes a cycle. The edit is taken: the handler returns, A1 holds the new formula, and
  both cells show "1".
\<close>

theorem cycle_edit_is_taken:
  "shown twoCells = Some (Returns [(''A1'', \<lparr>val = ''5'', formula = None\<rparr>),
                                   (''B1'', \<lparr>val = ''5'', formula = Some ''=SUM(A1)''\<rparr>)])
   \<and> shown (andThen twoCells (commitEdit ''A1'' ''=COUNT(B1)'')) =
       Some (Returns [(''A1'', \<lparr>val = ''1'', formula = Some ''=COUNT(B1)''\<rparr>),
                      (''B1'', \<lparr>val = ''1'', formula = Some ''=SUM(A1)''\<rparr>)])"
  by code_simp

text \<open>
  C2, as amended. There is no cycle detection and no \<^verbatim>\<open>CircularReference\<close> error: an
  edit that introduces a dependency cycle is taken like any other. On a well-formed
  sheet whose formulas are in limits, every edit in limits returns a new state. In it
  the keys keep their order, a new key going last; the edited cell holds the formula
  typed, or, for a text that does not start with "=", that text as its value and no
  formula; every formula cell holds its formula evaluated over the sheet as the single
  pass found it on reaching that cell (the cells before it in key order at their final
  values, the cell itself and the cells after it at their values from before the pass,
  the edited cell at its new one); every other cell without a formula is as it was; and
  a history entry for the new sheet is added after the cursor.
\<close>

theorem every_edit_is_accepted:
  assumes "\<not> isViewOnly s" and "wfCells (heap s) (data s)"
    and "formulasInLimits (heap s)"
    and "if take 1 (editValue s) = ''='' then inLimits (drop 1 (editValue s)) else True"
  shows "\<exists>s' cell. handleCellBlur s = Some (Returns s')
           \<and> newCell (editValue s) (heap s) (data s) = Some (Returns cell)
           \<and> map fst (data s') = (if selectedCell s \<in> set (map fst (data s)) then map fst (data s)
                                   else map fst (data s) @ [selectedCell s])
           \<and> (\<exists>c. sheetOf (heap s') (data s') (selectedCell s) = Some c
                 \<and> formula c = (if take 1 (editValue s) = ''='' then Some (editValue s) else None)
                 \<and> (if take 1 (editValue s) = ''='' then True else val c = editValue s))
           \<and> (\<forall>pre key post c f.
                 map fst (data s') = pre @ key # post \<and> sheetOf (heap s') (data s') key = Some c
                 \<and> formula c = Some f \<and> f \<noteq> []
                 \<longrightarrow> evaluateFormula (drop 1 f)
                       (\<lambda>k. if k \<in> set pre then sheetOf (heap s') (data s') k
                            else sheetOf (heap s @ [cell]) (data s') k) = Some (Returns (val c)))
           \<and> (\<forall>key c. key \<noteq> selectedCell s \<and> sheetOf (heap s) (data s) key = Some c \<and> formula c = None
                 \<longrightarrow> sheetOf (heap s') (data s') key = Some c)
           \<and> history s' = take (nat (historyIndex s + 1)) (history s) @ [data s']
           \<and> historyIndex s' = int (length (history s')) - 1"
proof -
  let ?a = "length (heap s)"
  from handleCellBlur_returns[OF assms] obtain s' cell where
    s': "handleCellBlur s = Some (Returns s')"
    and cell: "newCell (editValue s) (heap s) (data s) = Some (Returns cell)"
    by blast
  from handleCellBlur_unfold[OF s' assms(1)] cell
  have r: "recalc (heap s @ [cell]) (data s') (map fst (data s')) = Some (Returns (heap s'))"
    and nd: "data s' = assign (data s) (selectedCell s) ?a"
    and hist: "history s' = take (nat (historyIndex s + 1)) (history s) @ [data s']"
              "historyIndex s' = int (length (history s')) - 1"
    by auto
  have wf: "wfCells (heap s @ [cell]) (data s')" unfolding nd using assms(2) by (rule assign_wf)
  have keys: "map fst (data s') = (if selectedCell s \<in> set (map fst (data s)) then map fst (data s)
                                   else map fst (data s) @ [selectedCell s])"
    unfolding nd by (simp add: assign_keys map_of_eq_None_iff)
  have look: "map_of (data s') (selectedCell s) = Some ?a" unfolding nd by (rule assign_same)
  have edited: "\<exists>c. sheetOf (heap s') (data s') (selectedCell s) = Some c
                 \<and> formula c = (if take 1 (editValue s) = ''='' then Some (editValue s) else None)
                 \<and> (if take 1 (editValue s) = ''='' then True else val c = editValue s)"
  proof (cases "take 1 (editValue s) = ''=''")
    case True
    from recalc_keeps[OF r] newCell_formula[OF cell] True
    have "formula (heap s' ! ?a) = Some (editValue s)" by simp
    with True look show ?thesis by (simp add: sheetOf_def)
  next
    case False
    with cell have c: "cell = \<lparr>val = editValue s, formula = None\<rparr>" by (simp add: newCell_def)
    then have "formula ((heap s @ [cell]) ! ?a) = None" by simp
    from recalc_plain[OF r this] c have "heap s' ! ?a = \<lparr>val = editValue s, formula = None\<rparr>" by simp
    with False look show ?thesis by (simp add: sheetOf_def)
  qed
  have pass: "evaluateFormula (drop 1 f)
                (\<lambda>k. if k \<in> set pre then sheetOf (heap s') (data s') k
                     else sheetOf (heap s @ [cell]) (data s') k) = Some (Returns (val c))"
    if "map fst (data s') = pre @ key # post \<and> sheetOf (heap s') (data s') key = Some c
        \<and> formula c = Some f \<and> f \<noteq> []" for pre key post c f
  proof -
    from that obtain a where a: "map_of (data s') key = Some a" and c: "c = heap s' ! a"
      by (auto simp: sheetOf_def split: option.splits)
    from that have k: "map fst (data s') = pre @ key # post" by simp
    from pass_sheet_mixed[OF wf k r a] that c show ?thesis by simp
  qed
  have plain: "sheetOf (heap s') (data s') key = Some c"
    if "key \<noteq> selectedCell s \<and> sheetOf (heap s) (data s) key = Some c \<and> formula c = None" for key c
  proof -
    from that obtain b where b: "map_of (data s) key = Some b" and c: "c = heap s ! b"
      by (auto simp: sheetOf_def split: option.splits)
    from assms(2) b have lt: "b < ?a" by (rule wf_lookup_bound)
    from that b have b': "map_of (data s') key = Some b" unfolding nd by (simp add: assign_other)
    from lt c that have "formula ((heap s @ [cell]) ! b) = None" by (simp add: nth_append)
    from recalc_plain[OF r this] lt c have "heap s' ! b = c" by (simp add: nth_append)
    with b' show ?thesis by (simp add: sheetOf_def)
  qed
  from s' cell keys edited pass plain hist show ?thesis by blast
qed


theorem every_edit_is_accepted_witness:
  "\<exists>s'. handleCellBlur (twoCellsTyped ''=COUNT(B1)'') = Some (Returns s')
     \<and> map fst (data s') = [''A1'', ''B1'']
     \<and> (\<exists>c. sheetOf (heap s') (data s') ''A1'' = Some c \<and> formula c = Some ''=COUNT(B1)'')
     \<and> history s' = [[(''A1'', 0)], [(''A1'', 0), (''B1'', 1)]] @ [data s']
     \<and> historyIndex s' = int (length (history s')) - 1"
proof -
  let ?s = "twoCellsTyped ''=COUNT(B1)''"
  have h1: "\<not> isViewOnly ?s" by code_simp
  have h2: "wfCells (heap ?s) (data ?s)" by code_simp
  have h3: "formulasInLimits (heap ?s)" by code_simp
  have h4: "if take 1 (editValue ?s) = ''='' then inLimits (drop 1 (editValue ?s)) else True"
    by code_simp
  have e: "selectedCell ?s = ''A1''" "editValue ?s = ''=COUNT(B1)''"
    "map fst (data ?s) = [''A1'', ''B1'']"
    "take (nat (historyIndex ?s + 1)) (history ?s) = [[(''A1'', 0)], [(''A1'', 0), (''B1'', 1)]]"
    by (simp_all add: twoCellsTyped_def)
  from every_edit_is_accepted[OF h1 h2 h3 h4]
  obtain s' where "handleCellBlur ?s = Some (Returns s')"
    and "map fst (data s') = (if selectedCell ?s \<in> set (map fst (data ?s)) then map fst (data ?s)
                              else map fst (data ?s) @ [selectedCell ?s])"
    and "\<exists>c. sheetOf (heap s') (data s') (selectedCell ?s) = Some c
           \<and> formula c = (if take 1 (editValue ?s) = ''='' then Some (editValue ?s) else None)
           \<and> (if take 1 (editValue ?s) = ''='' then True else val c = editValue ?s)"
    and "history s' = take (nat (historyIndex ?s + 1)) (history ?s) @ [data s']"
    and "historyIndex s' = int (length (history s')) - 1"
    by blast
  then show ?thesis unfolding e by auto
qed

section \<open>Malformed formulas\<close>




section \<open>Undo and redo\<close>

text \<open>
  C5. The claim: after the committed edits E1, E2, E3, undoing twice gives the snapshot
  as it was after E1. The history holds records that share their cell objects with the
  sheet (\<^verbatim>\<open>{ ...newData }\<close> copies bindings only), and every later pass writes the
  recomputed values into those objects. With E1: B1 = \<^verbatim>\<open>=SUM(A1)\<close>, E2: A1 = 5,
  E3: A1 = 7, the sheet after E1 shows B1 = "0"; after E3 and two undos the cursor is
  back at the first entry, which now shows B1 = "7".
\<close>

theorem undo_shows_later_values:
  "shown (commitEdit ''B1'' ''=SUM(A1)'' initial) =
     Some (Returns [(''B1'', \<lparr>val = ''0'', formula = Some ''=SUM(A1)''\<rparr>)])
   \<and> shown (map_option (map_outcome (\<lambda>s. undo (undo s))) threeCommits) =
     Some (Returns [(''B1'', \<lparr>val = ''7'', formula = Some ''=SUM(A1)''\<rparr>)])
   \<and> map_option (map_outcome (\<lambda>s. historyIndex (undo (undo s)))) threeCommits = Some (Returns 0)"
  by code_simp

end
